theory Spec2Isabelle
  imports Main "HOL-Library.Word" "HOL-Library.Char_ord" "HOL-Library.List_Lexorder"
    "HOL-Library.Multiset"
begin

unbundle bit_operations_syntax

section \<open>Python values\<close>

text \<open>
  A Python \<open>bytes\<close> object is a list of octets. A Python \<open>str\<close> is identified with its
  UTF-8 encoding, so \<open>str.encode()\<close> is the identity and \<open>bytes.decode()\<close> is a check of
  well-formedness. The separators the program looks for (space, NUL, newline, slash) are
  ASCII and never occur inside a multi-byte sequence, so splitting the encoded form is
  splitting the text, and the byte-wise lexicographic order of UTF-8 is the code-point
  order by which Python compares strings. Strings with lone surrogates, which have no
  UTF-8 encoding, are outside this type.
\<close>

type_synonym bytes = string
type_synonym str = string

text \<open>Every \<open>raise\<close> of the program and of the library calls it makes is a value.\<close>

datatype error =
    FileNotFoundError            \<comment> \<open>raised by \<open>retrieve_object\<close>: no file at the object's path\<close>
  | zlib_error                   \<comment> \<open>\<open>zlib.decompress\<close> on bytes that are no zlib stream\<close>
  | ValueError_unpack            \<comment> \<open>tuple unpacking of a split with the wrong number of parts\<close>
  | UnicodeDecodeError           \<comment> \<open>\<open>bytes.decode()\<close> on ill-formed UTF-8\<close>
  | ValueError_int               \<comment> \<open>\<open>int(s)\<close> on a string that is no integer literal\<close>
  | ValueError_size_mismatch     \<comment> \<open>"Object ... corrupted: size mismatch"\<close>
  | ValueError_not_a_tree        \<comment> \<open>"Object ... is not a tree"\<close>
  | ValueError_not_a_commit      \<comment> \<open>"Object ... is not a commit"\<close>
  | ValueError_fromhex           \<comment> \<open>\<open>bytes.fromhex\<close> on a string that is not hexadecimal\<close>
  | IsADirectoryError            \<comment> \<open>reading or writing a path that is a directory\<close>
  | NotADirectoryError           \<comment> \<open>\<open>mkdir\<close> below a regular file\<close>
  | FileExistsError              \<comment> \<open>\<open>mkdir(exist_ok=True)\<close> on a regular file\<close>
  | IndexError                   \<comment> \<open>list index out of range\<close>
  | RecursionError               \<comment> \<open>the interpreter's recursion limit is exceeded\<close>

definition NUL :: char where
  "NUL = CHR 0x00"

subsection \<open>UTF-8\<close>

definition cont_byte :: "char \<Rightarrow> bool" where
  "cont_byte c = (0x80 \<le> (of_char c :: nat) \<and> (of_char c :: nat) \<le> 0xBF)"

definition byte_in :: "nat \<Rightarrow> nat \<Rightarrow> char \<Rightarrow> bool" where
  "byte_in lo hi c = (lo \<le> (of_char c :: nat) \<and> (of_char c :: nat) \<le> hi)"

text \<open>
  The strict decoder of Python (RFC 3629): shortest form only, no surrogates, nothing above
  U+10FFFF. The byte after a lead byte \<open>E0\<close>, \<open>ED\<close>, \<open>F0\<close> or \<open>F4\<close> has a narrower
  range than a continuation byte.
\<close>

definition second_byte :: "char \<Rightarrow> char \<Rightarrow> bool" where
  "second_byte c c1 =
     (if c = CHR 0xE0 then byte_in 0xA0 0xBF c1
      else if c = CHR 0xED then byte_in 0x80 0x9F c1
      else if c = CHR 0xF0 then byte_in 0x90 0xBF c1
      else if c = CHR 0xF4 then byte_in 0x80 0x8F c1
      else cont_byte c1)"

fun utf8_valid :: "bytes \<Rightarrow> bool" where
  "utf8_valid [] = True"
| "utf8_valid (c # cs) =
     (if byte_in 0x00 0x7F c then utf8_valid cs
      else if byte_in 0xC2 0xDF c then
        (case cs of c1 # r \<Rightarrow> cont_byte c1 \<and> utf8_valid r | _ \<Rightarrow> False)
      else if byte_in 0xE0 0xEF c then
        (case cs of c1 # c2 # r \<Rightarrow> second_byte c c1 \<and> cont_byte c2 \<and> utf8_valid r
         | _ \<Rightarrow> False)
      else if byte_in 0xF0 0xF4 c then
        (case cs of c1 # c2 # c3 # r \<Rightarrow>
           second_byte c c1 \<and> cont_byte c2 \<and> cont_byte c3 \<and> utf8_valid r
         | _ \<Rightarrow> False)
      else False)"

definition encode_utf8 :: "str \<Rightarrow> bytes" where
  "encode_utf8 s = s"

definition decode_utf8 :: "bytes \<Rightarrow> error + str" where
  "decode_utf8 b = (if utf8_valid b then Inr b else Inl UnicodeDecodeError)"

text \<open>\<open>len(s)\<close> of a \<open>str\<close> counts code points: the bytes that are no continuation bytes.\<close>

definition py_len :: "str \<Rightarrow> nat" where
  "py_len s = length (filter (\<lambda>c. \<not> cont_byte c) s)"

subsection \<open>Splitting and stripping\<close>

text \<open>
  \<open>s.split(sep, 1)\<close> for a non-empty separator: \<open>None\<close> when \<open>sep\<close> does not occur (Python
  returns the one-element list \<open>[s]\<close>), else the text before and after the first occurrence.
\<close>

fun split_first :: "string \<Rightarrow> string \<Rightarrow> (string \<times> string) option" where
  "split_first sep s =
     (if take (length sep) s = sep then Some ([], drop (length sep) s)
      else (case s of [] \<Rightarrow> None
            | x # xs \<Rightarrow> map_option (\<lambda>(a, b). (x # a, b)) (split_first sep xs)))"

text \<open>\<open>s.split(c)\<close> for a one-character separator: all the fields, at least one.\<close>

fun split_all :: "char \<Rightarrow> string \<Rightarrow> string list" where
  "split_all c [] = [[]]"
| "split_all c (x # xs) =
     (if x = c then [] # split_all c xs
      else (case split_all c xs of w # ws \<Rightarrow> (x # w) # ws | [] \<Rightarrow> [[x]]))"

definition startswith :: "string \<Rightarrow> string \<Rightarrow> bool" where
  "startswith s p = (take (length p) s = p)"

text \<open>
  The characters \<open>str.strip()\<close> removes, in UTF-8: the ASCII ones (TAB, LF, VT, FF, CR,
  FS, GS, RS, US, space), then U+0085 and U+00A0, then U+1680, U+2000 to U+200A, U+2028,
  U+2029, U+202F, U+205F and U+3000.
\<close>

definition ws1 :: "string" where
  "ws1 = [CHR 0x09, CHR 0x0A, CHR 0x0B, CHR 0x0C, CHR 0x0D,
          CHR 0x1C, CHR 0x1D, CHR 0x1E, CHR 0x1F, CHR 0x20]"

definition ws2 :: "string list" where
  "ws2 = [[CHR 0xC2, CHR 0x85], [CHR 0xC2, CHR 0xA0]]"

definition ws3 :: "string list" where
  "ws3 = [[CHR 0xE1, CHR 0x9A, CHR 0x80],
          [CHR 0xE2, CHR 0x80, CHR 0x80], [CHR 0xE2, CHR 0x80, CHR 0x81],
          [CHR 0xE2, CHR 0x80, CHR 0x82], [CHR 0xE2, CHR 0x80, CHR 0x83],
          [CHR 0xE2, CHR 0x80, CHR 0x84], [CHR 0xE2, CHR 0x80, CHR 0x85],
          [CHR 0xE2, CHR 0x80, CHR 0x86], [CHR 0xE2, CHR 0x80, CHR 0x87],
          [CHR 0xE2, CHR 0x80, CHR 0x88], [CHR 0xE2, CHR 0x80, CHR 0x89],
          [CHR 0xE2, CHR 0x80, CHR 0x8A], [CHR 0xE2, CHR 0x80, CHR 0xA8],
          [CHR 0xE2, CHR 0x80, CHR 0xA9], [CHR 0xE2, CHR 0x80, CHR 0xAF],
          [CHR 0xE2, CHR 0x81, CHR 0x9F], [CHR 0xE3, CHR 0x80, CHR 0x80]]"

text \<open>
  Removing leading whitespace; with \<open>f = rev\<close> the same scan runs over the reversed string
  and removes trailing whitespace.
\<close>

fun strip_front :: "(string \<Rightarrow> string) \<Rightarrow> string \<Rightarrow> string" where
  "strip_front f [] = []"
| "strip_front f (c # cs) =
     (if c \<in> set ws1 then strip_front f cs
      else if f (c # take 1 cs) \<in> set ws2 then strip_front f (drop 1 cs)
      else if f (c # take 2 cs) \<in> set ws3 then strip_front f (drop 2 cs)
      else c # cs)"

definition py_lstrip :: "str \<Rightarrow> str" where
  "py_lstrip s = strip_front id s"

definition py_rstrip :: "str \<Rightarrow> str" where
  "py_rstrip s = rev (strip_front rev (rev s))"

definition py_strip :: "str \<Rightarrow> str" where
  "py_strip s = py_rstrip (py_lstrip s)"

subsection \<open>Numbers and text\<close>

definition digit_char :: "nat \<Rightarrow> char" where
  "digit_char d = ''0123456789'' ! d"

text \<open>\<open>f"{n}"\<close> for a non-negative integer.\<close>

fun str_of_nat :: "nat \<Rightarrow> str" where
  "str_of_nat n = (if n < 10 then [digit_char n] else str_of_nat (n div 10) @ [digit_char (n mod 10)])"

definition str_of_int :: "int \<Rightarrow> str" where
  "str_of_int i = (if i < 0 then CHR ''-'' # str_of_nat (nat (- i)) else str_of_nat (nat i))"

definition is_digit :: "char \<Rightarrow> bool" where
  "is_digit c = (c \<in> set ''0123456789'')"

definition digit_val :: "char \<Rightarrow> nat" where
  "digit_val c = of_char c - 48"

text \<open>
  The digits of a decimal literal as \<open>int\<close> reads them: single underscores are allowed
  between digits.
\<close>

fun dec_value :: "string \<Rightarrow> nat \<Rightarrow> nat option" where
  "dec_value [] acc = Some acc"
| "dec_value (c # cs) acc =
     (if is_digit c then dec_value cs (10 * acc + digit_val c)
      else if c = CHR ''_'' then
        (case cs of [] \<Rightarrow> None
         | d # ds \<Rightarrow> if is_digit d then dec_value ds (10 * acc + digit_val d) else None)
      else None)"

definition dec_literal :: "string \<Rightarrow> nat option" where
  "dec_literal s = (case s of [] \<Rightarrow> None
     | c # cs \<Rightarrow> if is_digit c then dec_value cs (digit_val c) else None)"

text \<open>
  \<open>int(s)\<close> in base 10: surrounding whitespace is skipped, one sign is allowed. Digits
  outside ASCII (Unicode category Nd), which Python also reads, and the interpreter's
  limit on the number of digits are not modelled: on such strings the model answers
  \<open>None\<close>, Python's \<open>ValueError\<close>.
\<close>

definition py_int :: "str \<Rightarrow> int option" where
  "py_int s = (case py_strip s of [] \<Rightarrow> None
     | c # cs \<Rightarrow>
         if c = CHR ''-'' then map_option (\<lambda>n. - int n) (dec_literal cs)
         else if c = CHR ''+'' then map_option int (dec_literal cs)
         else map_option int (dec_literal (c # cs)))"

subsection \<open>Hexadecimal\<close>

definition hex_digit :: "nat \<Rightarrow> char" where
  "hex_digit n = ''0123456789abcdef'' ! n"

text \<open>\<open>bytes.hex()\<close>\<close>

definition hex :: "bytes \<Rightarrow> str" where
  "hex bs = concat (map (\<lambda>c. [hex_digit (of_char c div 16), hex_digit (of_char c mod 16)]) bs)"

definition hex_val :: "char \<Rightarrow> nat option" where
  "hex_val c =
     (if c \<in> set ''0123456789'' then Some (of_char c - 48)
      else if c \<in> set ''abcdef'' then Some (of_char c - 87)
      else if c \<in> set ''ABCDEF'' then Some (of_char c - 55)
      else None)"

text \<open>
  \<open>bytes.fromhex(s)\<close>: pairs of hexadecimal digits of either case, ASCII whitespace
  allowed before each pair and at the end.
\<close>

fun fromhex :: "str \<Rightarrow> bytes option" where
  "fromhex [] = Some []"
| "fromhex (c # cs) =
     (if c \<in> set [CHR 0x09, CHR 0x0A, CHR 0x0B, CHR 0x0C, CHR 0x0D, CHR 0x20] then fromhex cs
      else (case cs of [] \<Rightarrow> None
            | d # ds \<Rightarrow>
               (case (hex_val c, hex_val d) of
                  (Some hi, Some lo) \<Rightarrow> map_option ((#) (char_of (16 * hi + lo))) (fromhex ds)
                | _ \<Rightarrow> None)))"

section \<open>SHA-1\<close>

text \<open>
  \<open>hashlib.sha1\<close> is the Secure Hash Algorithm 1 of FIPS 180-4, on 32-bit words:
  the message is padded to a multiple of 64 bytes and each block updates five words.
\<close>

definition be_word :: "bytes \<Rightarrow> 32 word" where
  "be_word bs = foldl (\<lambda>a c. push_bit 8 a OR of_char c) 0 bs"

definition word_bytes :: "32 word \<Rightarrow> bytes" where
  "word_bytes w = map (\<lambda>i. char_of (uint (drop_bit (8 * i) w))) [3, 2, 1, 0]"

definition length_bytes :: "nat \<Rightarrow> bytes" where
  "length_bytes n = map (\<lambda>i. char_of (drop_bit (8 * i) (int n))) [7, 6, 5, 4, 3, 2, 1, 0]"

definition sha1_pad :: "bytes \<Rightarrow> bytes" where
  "sha1_pad m = m @ [CHR 0x80] @ replicate ((119 - length m mod 64) mod 64) (CHR 0x00)
                  @ length_bytes (8 * length m)"

fun chunks :: "nat \<Rightarrow> nat \<Rightarrow> 'a list \<Rightarrow> 'a list list" where
  "chunks 0 k xs = []"
| "chunks (Suc n) k xs = take k xs # chunks n k (drop k xs)"

text \<open>The circular left shift of a word by \<open>n\<close> places, \<open>0 < n < 32\<close>.\<close>

definition rotl :: "nat \<Rightarrow> 32 word \<Rightarrow> 32 word" where
  "rotl n w = push_bit n w OR drop_bit (32 - n) w"

fun sha1_schedule :: "nat \<Rightarrow> 32 word list \<Rightarrow> 32 word list" where
  "sha1_schedule 0 ws = ws"
| "sha1_schedule (Suc n) ws =
     sha1_schedule n (ws @ [rotl 1 (ws ! (length ws - 3) XOR ws ! (length ws - 8)
                                 XOR ws ! (length ws - 14) XOR ws ! (length ws - 16))])"

definition sha1_f :: "nat \<Rightarrow> 32 word \<Rightarrow> 32 word \<Rightarrow> 32 word \<Rightarrow> 32 word" where
  "sha1_f t b c d =
     (if t < 20 then (b AND c) OR (NOT b AND d)
      else if t < 40 then b XOR c XOR d
      else if t < 60 then (b AND c) OR (b AND d) OR (c AND d)
      else b XOR c XOR d)"

definition sha1_k :: "nat \<Rightarrow> 32 word" where
  "sha1_k t = (if t < 20 then 0x5A827999 else if t < 40 then 0x6ED9EBA1
               else if t < 60 then 0x8F1BBCDC else 0xCA62C1D6)"

type_synonym sha1_state = "32 word \<times> 32 word \<times> 32 word \<times> 32 word \<times> 32 word"

text \<open>The rounds \<open>t\<close>, \<open>t + 1\<close>, ... of a block, one for each word of the schedule.\<close>

fun sha1_rounds :: "nat \<Rightarrow> sha1_state \<Rightarrow> 32 word list \<Rightarrow> sha1_state" where
  "sha1_rounds t (a, b, c, d, e) [] = (a, b, c, d, e)"
| "sha1_rounds t (a, b, c, d, e) (w # ws) =
     sha1_rounds (Suc t) (rotl 5 a + sha1_f t b c d + e + sha1_k t + w, a, rotl 30 b, c, d) ws"

fun sha1_block :: "sha1_state \<Rightarrow> bytes \<Rightarrow> sha1_state" where
  "sha1_block (h0, h1, h2, h3, h4) blk =
     (case sha1_rounds 0 (h0, h1, h2, h3, h4) (sha1_schedule 64 (map be_word (chunks 16 4 blk))) of
        (a, b, c, d, e) \<Rightarrow> (h0 + a, h1 + b, h2 + c, h3 + d, h4 + e))"

definition sha1_init :: sha1_state where
  "sha1_init = (0x67452301, 0xEFCDAB89, 0x98BADCFE, 0x10325476, 0xC3D2E1F0)"

definition sha1 :: "bytes \<Rightarrow> bytes" where
  "sha1 m = (let p = sha1_pad m in
     case foldl sha1_block sha1_init (chunks (length p div 64) 64 p) of
       (h0, h1, h2, h3, h4) \<Rightarrow> concat (map word_bytes [h0, h1, h2, h3, h4]))"

section \<open>Stage 1: the object store\<close>

text \<open>
  \<open>zlib\<close> is a lossless codec: a compressed stream is represented by the bytes it
  decompresses to, and every other file content is rejected by \<open>zlib.decompress\<close>.
\<close>

datatype zbytes = Deflated bytes | Not_a_stream bytes

definition zlib_compress :: "bytes \<Rightarrow> zbytes" where
  "zlib_compress b = Deflated b"

fun zlib_decompress :: "zbytes \<Rightarrow> bytes option" where
  "zlib_decompress (Deflated b) = Some b"
| "zlib_decompress (Not_a_stream b) = None"

text \<open>
  The objects directory is the map from an object's path, the pair of shard directory
  \<open>sha1_hash[:2]\<close> and file name \<open>sha1_hash[2:]\<close>, to the content of the file there. The
  field \<open>writes\<close> records every \<open>write_bytes\<close>, in order.
\<close>

type_synonym obj_path = "string \<times> string"

record store =
  objects :: "obj_path \<rightharpoonup> zbytes"
  writes :: "obj_path list"

text \<open>
  The methods \<open>_object_path\<close> and \<open>_hash_content\<close> are \<open>object_path\<close> and \<open>hash_content\<close>
  here: a name cannot start with an underscore.
\<close>

definition object_path :: "str \<Rightarrow> obj_path" where
  "object_path sha1_hash = (take 2 sha1_hash, drop 2 sha1_hash)"

definition hash_content :: "str \<Rightarrow> bytes \<Rightarrow> str" where
  "hash_content obj_type content =
     (let header = encode_utf8 (obj_type @ '' '' @ str_of_nat (length content) @ [NUL]);
          full_content = header @ content
      in hex (sha1 full_content))"

definition store_object :: "store \<Rightarrow> str \<Rightarrow> bytes \<Rightarrow> str \<times> store" where
  "store_object st obj_type content =
     (let sha1_hash = hash_content obj_type content;
          obj_path = object_path sha1_hash
      in if objects st obj_path = None then
           (let compressed = zlib_compress
                  (encode_utf8 (obj_type @ '' '' @ str_of_nat (length content) @ [NUL]) @ content)
            in (sha1_hash, st\<lparr>objects := (objects st)(obj_path \<mapsto> compressed),
                               writes := writes st @ [obj_path]\<rparr>))
         else (sha1_hash, st))"

definition retrieve_object :: "store \<Rightarrow> str \<Rightarrow> error + (str \<times> bytes)" where
  "retrieve_object st sha1_hash =
     (case objects st (object_path sha1_hash) of
        None \<Rightarrow> Inl FileNotFoundError
      | Some z \<Rightarrow>
         (case zlib_decompress z of
            None \<Rightarrow> Inl zlib_error
          | Some raw_data \<Rightarrow>
             (case split_first [NUL] raw_data of
                None \<Rightarrow> Inl ValueError_unpack
              | Some (header, content) \<Rightarrow>
                 (case decode_utf8 header of
                    Inl e \<Rightarrow> Inl e
                  | Inr h \<Rightarrow>
                     (case split_all (CHR '' '') h of
                        [obj_type, size_str] \<Rightarrow>
                          (case py_int size_str of
                             None \<Rightarrow> Inl ValueError_int
                           | Some n \<Rightarrow>
                               if int (length content) \<noteq> n then Inl ValueError_size_mismatch
                               else Inr (obj_type, content))
                      | _ \<Rightarrow> Inl ValueError_unpack)))))"

text \<open>A sequence of puts, as a repository sees over its life.\<close>

fun store_all :: "store \<Rightarrow> (str \<times> bytes) list \<Rightarrow> store" where
  "store_all st [] = st"
| "store_all st ((obj_type, content) # ops) = store_all (snd (store_object st obj_type content)) ops"

section \<open>Facts about the Python values\<close>

lemma length_word_bytes: "length (word_bytes w) = 4"
  by (simp add: word_bytes_def)

lemma length_sha1: "length (sha1 m) = 20"
  by (simp add: sha1_def Let_def length_word_bytes split: prod.splits)

lemma length_hex: "length (hex bs) = 2 * length bs"
  by (induction bs) (simp_all add: hex_def)

subsection \<open>SHA-1 at known digests\<close>

text \<open>
  The model of \<open>hashlib.sha1\<close> is run on two messages of one block each: the example
  message \<open>abc\<close> of FIPS 180-4, and the framed empty blob, whose address every git
  repository knows.
\<close>

lemma sha1_schedule_numeral:
  "sha1_schedule (numeral k) ws =
     sha1_schedule (pred_numeral k) (ws @ [rotl 1 (ws ! (length ws - 3) XOR ws ! (length ws - 8)
                                 XOR ws ! (length ws - 14) XOR ws ! (length ws - 16))])"
  by (simp add: numeral_eq_Suc)

lemma abc_words:
  "map be_word (chunks 16 4 (sha1_pad (''abc''))) =
     [0x61626380, 0x00000000, 0x00000000, 0x00000000, 0x00000000, 0x00000000, 0x00000000,
     0x00000000, 0x00000000, 0x00000000, 0x00000000, 0x00000000, 0x00000000, 0x00000000,
     0x00000000, 0x00000018]"
  by code_simp

lemma abc_schedule:
  "sha1_schedule 64
     [0x61626380, 0x00000000, 0x00000000, 0x00000000, 0x00000000, 0x00000000, 0x00000000,
     0x00000000, 0x00000000, 0x00000000, 0x00000000, 0x00000000, 0x00000000, 0x00000000,
     0x00000000, 0x00000018] =
     [0x61626380, 0x00000000, 0x00000000, 0x00000000, 0x00000000, 0x00000000, 0x00000000,
     0x00000000, 0x00000000, 0x00000000, 0x00000000, 0x00000000, 0x00000000, 0x00000000,
     0x00000000, 0x00000018, 0xC2C4C700, 0x00000000, 0x00000030, 0x85898E01, 0x00000000,
     0x00000060, 0x0B131C03, 0x00000030, 0x85898EC1, 0x16263806, 0x00000000, 0x00000180,
     0x2C4C700C, 0x000000F0, 0x93AFB507, 0x5898E048, 0x8E9A9202, 0x00000600, 0xB131C0F0,
     0x16263BC6, 0x4EBED41E, 0x626380A1, 0x16263806, 0x000018C0, 0xD2E138C4, 0x00000F00,
     0x3AFB5079, 0x898E04E5, 0xE2BA3C2B, 0x000060C0, 0x053A37CD, 0x74458547, 0xDA9415ED,
     0x26380A16, 0x626383A1, 0x4EBF54DE, 0x3835B44B, 0x0000F600, 0x1E84C7A3, 0x98E04D98,
     0x651D16A0, 0x62658CA1, 0x458544D6, 0x44584CB7, 0x7BA06619, 0x6380AEA2, 0x0AE55269,
     0x627B49A1, 0x7CD45C9D, 0x000F0000, 0xFB50753A, 0xEC6765E8, 0xBA3C2BE2, 0x0060C000,
     0x3A37CD05, 0x458546F4, 0xB8599DD6, 0x380A1A26, 0x01E02203, 0xE7CC3456, 0xE6E60B69,
     0x00F60A00, 0x5795EF4F, 0x822E0879]"
  by (simp add: sha1_schedule_numeral rotl_def)

lemma abc_block:
  "sha1_block sha1_init (sha1_pad (''abc'')) =
     (0xA9993E36, 0x4706816A, 0xBA3E2571, 0x7850C26C, 0x9CD0D89D)"
  unfolding sha1_block.simps sha1_init_def abc_words abc_schedule
  by (simp add: rotl_def sha1_f_def sha1_k_def)

lemma abc_chunks:
  "chunks (length (sha1_pad (''abc'')) div 64) 64 (sha1_pad (''abc''))
     = [sha1_pad (''abc'')]"
  by code_simp

lemma abc_digest:
  "hex (concat (map word_bytes [0xA9993E36, 0x4706816A, 0xBA3E2571, 0x7850C26C, 0x9CD0D89D])) =
     ''a9993e364706816aba3e25717850c26c9cd0d89d''"
  by code_simp

lemma sha1_abc:
  "hex (sha1 (''abc'')) = ''a9993e364706816aba3e25717850c26c9cd0d89d''"
  unfolding sha1_def Let_def abc_chunks
  by (simp only: foldl.simps abc_block prod.case abc_digest)

lemma empty_blob_words:
  "map be_word (chunks 16 4 (sha1_pad (''blob 0'' @ [NUL]))) =
     [0x626C6F62, 0x20300080, 0x00000000, 0x00000000, 0x00000000, 0x00000000, 0x00000000,
     0x00000000, 0x00000000, 0x00000000, 0x00000000, 0x00000000, 0x00000000, 0x00000000,
     0x00000000, 0x00000038]"
  by code_simp

lemma empty_blob_schedule:
  "sha1_schedule 64
     [0x626C6F62, 0x20300080, 0x00000000, 0x00000000, 0x00000000, 0x00000000, 0x00000000,
     0x00000000, 0x00000000, 0x00000000, 0x00000000, 0x00000000, 0x00000000, 0x00000000,
     0x00000000, 0x00000038] =
     [0x626C6F62, 0x20300080, 0x00000000, 0x00000000, 0x00000000, 0x00000000, 0x00000000,
     0x00000000, 0x00000000, 0x00000000, 0x00000000, 0x00000000, 0x00000000, 0x00000000,
     0x00000000, 0x00000038, 0xC4D8DEC4, 0x40600100, 0x00000070, 0x89B1BD89, 0x80C00200,
     0x000000E0, 0x13637B13, 0x01800471, 0x89B1BC49, 0xA606F426, 0x03000802, 0x00000380,
     0x4D8DEC4C, 0x060011B4, 0xAF774CAF, 0x18DBD20A, 0x96D2E692, 0x81400801, 0x3637B0F1,
     0x3EC6B0F6, 0xBEDD3ABC, 0x636F4BA8, 0x16C67606, 0x030031C2, 0xFE1832E2, 0x63011342,
     0xF774CAFA, 0x8DBD2041, 0x7E4D123A, 0x158085D9, 0x45BDF8F5, 0xC9ADF3E7, 0x96FBC2B0,
     0x3274A681, 0x6C6766A1, 0x8DDE335E, 0xC845F003, 0x33113224, 0x417B1E9E, 0xC3D242C8,
     0x590C1119, 0x3B671639, 0x4D19F952, 0x99DF0FBE, 0x91A419EB, 0x444B7A91, 0x17C456CA,
     0x535E1C8B, 0xCFB79F33, 0x2613AA59, 0x74CAE6F7, 0xD14F23EF, 0x7D12BA5E, 0x8085D915,
     0xBDF8F545, 0xADF3E449, 0xB64F5CDA, 0x72A68D36, 0x0B09C40E, 0x75281435, 0x13A8F093,
     0x3932F603, 0x21465112, 0x962D4411]"
  by (simp add: sha1_schedule_numeral rotl_def)

lemma empty_blob_block:
  "sha1_block sha1_init (sha1_pad (''blob 0'' @ [NUL])) =
     (0xE69DE29B, 0xB2D1D643, 0x4B8B29AE, 0x775AD8C2, 0xE48C5391)"
  unfolding sha1_block.simps sha1_init_def empty_blob_words empty_blob_schedule
  by (simp add: rotl_def sha1_f_def sha1_k_def)

lemma empty_blob_chunks:
  "chunks (length (sha1_pad (''blob 0'' @ [NUL])) div 64) 64 (sha1_pad (''blob 0'' @ [NUL]))
     = [sha1_pad (''blob 0'' @ [NUL])]"
  by code_simp

lemma empty_blob_digest:
  "hex (concat (map word_bytes [0xE69DE29B, 0xB2D1D643, 0x4B8B29AE, 0x775AD8C2, 0xE48C5391])) =
     ''e69de29bb2d1d6434b8b29ae775ad8c2e48c5391''"
  by code_simp

lemma sha1_empty_blob:
  "hex (sha1 (''blob 0'' @ [NUL])) = ''e69de29bb2d1d6434b8b29ae775ad8c2e48c5391''"
  unfolding sha1_def Let_def empty_blob_chunks
  by (simp only: foldl.simps empty_blob_block prod.case empty_blob_digest)

lemma hash_empty_blob:
  "hash_content ''blob'' [] = ''e69de29bb2d1d6434b8b29ae775ad8c2e48c5391''"
proof -
  have "encode_utf8 (''blob'' @ '' '' @ str_of_nat (length ([] :: bytes)) @ [NUL]) @ []
      = ''blob 0'' @ [NUL]"
    by code_simp
  then show ?thesis unfolding hash_content_def Let_def by (simp only: sha1_empty_blob)
qed

lemma hex_digit_in: "n < 16 \<Longrightarrow> hex_digit n \<in> set ''0123456789abcdef''"
  unfolding hex_digit_def by (rule nth_mem) simp

lemma set_hex: "set (hex bs) \<subseteq> set ''0123456789abcdef''"
proof (induction bs)
  case Nil
  then show ?case by (simp add: hex_def)
next
  case (Cons c bs)
  have a: "(of_char c :: nat) div 16 < 16" using nat_of_char_less_256 [of c] by arith
  have b: "(of_char c :: nat) mod 16 < 16" by simp
  from Cons hex_digit_in [OF a] hex_digit_in [OF b] show ?case
    by (simp add: hex_def)
qed

lemma split_first_single:
  "c \<notin> set h \<Longrightarrow> split_first [c] (h @ c # r) = Some (h, r)"
  by (induction h) auto


lemma split_all_none: "c \<notin> set s \<Longrightarrow> split_all c s = [s]"
  by (induction s) auto

lemma split_all_one:
  "c \<notin> set a \<Longrightarrow> c \<notin> set b \<Longrightarrow> split_all c (a @ c # b) = [a, b]"
  by (induction a) (auto simp: split_all_none)

text \<open>Printable ASCII characters other than the space: no whitespace starts or ends with one.\<close>

definition plain :: "char \<Rightarrow> bool" where
  "plain c = (0x21 \<le> (of_char c :: nat) \<and> (of_char c :: nat) \<le> 0x7E)"

lemma plain_not_ws1: "plain c \<Longrightarrow> c \<notin> set ws1"
  by (auto simp: plain_def ws1_def)

lemma ws2_ends: "w \<in> set ws2 \<Longrightarrow> w \<noteq> [] \<and> \<not> plain (hd w) \<and> \<not> plain (last w)"
  by (auto simp: ws2_def plain_def)

lemma ws3_ends: "w \<in> set ws3 \<Longrightarrow> w \<noteq> [] \<and> \<not> plain (hd w) \<and> \<not> plain (last w)"
  unfolding ws3_def plain_def by (elim disjE | simp)+

lemma strip_front_id_plain: "plain c \<Longrightarrow> strip_front id (c # cs) = c # cs"
  using ws2_ends [of "c # take 1 cs"] ws3_ends [of "c # take 2 cs"] plain_not_ws1 [of c]
  by auto

lemma strip_front_rev_plain: "plain c \<Longrightarrow> strip_front rev (c # cs) = c # cs"
  using ws2_ends [of "rev (c # take 1 cs)"] ws3_ends [of "rev (c # take 2 cs)"]
    plain_not_ws1 [of c]
  by (auto simp: last_rev)

lemma digit_char_props:
  "d < 10 \<Longrightarrow> is_digit (digit_char d) \<and> digit_val (digit_char d) = d \<and> plain (digit_char d)"
proof -
  assume "d < 10"
  then have "d = 0 \<or> d = 1 \<or> d = 2 \<or> d = 3 \<or> d = 4 \<or> d = 5 \<or> d = 6 \<or> d = 7 \<or> d = 8 \<or> d = 9"
    by arith
  then show ?thesis
    by (elim disjE) (simp_all add: digit_char_def is_digit_def digit_val_def plain_def)
qed

declare strip_front.simps(2) [simp del]
declare str_of_nat.simps [simp del]

lemma py_strip_plain:
  assumes "s \<noteq> []" "plain (hd s)" "plain (last s)"
  shows "py_strip s = s"
proof -
  obtain c cs where s: "s = c # cs" using assms(1) by (cases s) auto
  have 1: "py_lstrip s = s" using assms(2) by (simp add: s py_lstrip_def strip_front_id_plain)
  obtain ys y where sy: "s = ys @ [y]" using assms(1) by (cases s rule: rev_cases) auto
  have "strip_front rev (rev s) = rev s"
    using assms(3) by (simp add: sy strip_front_rev_plain)
  then show ?thesis by (simp add: py_strip_def py_rstrip_def 1)
qed

lemma str_of_nat_digits: "c \<in> set (str_of_nat n) \<Longrightarrow> is_digit c \<and> plain c"
proof (induction n arbitrary: c rule: str_of_nat.induct)
  case (1 n)
  show ?case
  proof (cases "n < 10")
    case True
    with "1.prems" show ?thesis
      by (subst (asm) str_of_nat.simps) (simp add: digit_char_props)
  next
    case False
    with "1.prems" have "c \<in> set (str_of_nat (n div 10)) \<or> c = digit_char (n mod 10)"
      by (subst (asm) str_of_nat.simps) auto
    then show ?thesis using "1.IH" [OF False] digit_char_props [of "n mod 10"] by auto
  qed
qed

lemma str_of_nat_nonempty: "str_of_nat n \<noteq> []"
  by (subst str_of_nat.simps) simp

lemma dec_value_digits:
  "\<forall>c \<in> set xs. is_digit c \<Longrightarrow>
   dec_value xs acc = Some (foldl (\<lambda>a c. 10 * a + digit_val c) acc xs)"
  by (induction xs arbitrary: acc) auto

lemma foldl_str_of_nat: "foldl (\<lambda>a c. 10 * a + digit_val c) 0 (str_of_nat n) = n"
proof (induction n rule: str_of_nat.induct)
  case (1 n)
  show ?case
  proof (cases "n < 10")
    case True
    then show ?thesis by (subst str_of_nat.simps) (simp add: digit_char_props)
  next
    case False
    then show ?thesis using "1.IH" [OF False]
      by (subst str_of_nat.simps) (simp add: digit_char_props)
  qed
qed

lemma dec_literal_str_of_nat: "dec_literal (str_of_nat n) = Some n"
proof -
  obtain c cs where s: "str_of_nat n = c # cs"
    using str_of_nat_nonempty [of n] by (cases "str_of_nat n") auto
  have d: "\<forall>x \<in> set (c # cs). is_digit x" using str_of_nat_digits [of _ n] by (simp add: s)
  have "foldl (\<lambda>a c. 10 * a + digit_val c) 0 (c # cs) = n"
    using foldl_str_of_nat [of n] by (simp add: s)
  then show ?thesis using d by (simp add: dec_literal_def s dec_value_digits)
qed

lemma py_int_str_of_nat: "py_int (str_of_nat n) = Some (int n)"
proof -
  obtain c cs where s: "str_of_nat n = c # cs"
    using str_of_nat_nonempty [of n] by (cases "str_of_nat n") auto
  have "plain (hd (str_of_nat n))" "plain (last (str_of_nat n))"
    using str_of_nat_digits [of _ n] str_of_nat_nonempty [of n] by auto
  then have st: "py_strip (str_of_nat n) = str_of_nat n"
    using py_strip_plain str_of_nat_nonempty by blast
  have "is_digit c" using str_of_nat_digits [of c n] by (simp add: s)
  then have "c \<noteq> CHR ''-''" "c \<noteq> CHR ''+''" by (auto simp: is_digit_def)
  moreover have "py_strip (c # cs) = c # cs" using st by (simp add: s)
  moreover have "dec_literal (c # cs) = Some n" using dec_literal_str_of_nat [of n] by (simp add: s)
  ultimately show ?thesis
    by (simp add: py_int_def s)
qed

lemma plain_neq: "plain c \<Longrightarrow> c \<noteq> CHR '' '' \<and> c \<noteq> NUL \<and> c \<noteq> CHR 0x0A"
  by (auto simp: plain_def NUL_def)

lemma utf8_valid_ascii: "\<forall>c \<in> set s. (of_char c :: nat) < 0x80 \<Longrightarrow> utf8_valid s"
  by (induction s) (auto simp: byte_in_def)

lemma utf8_valid_append:
  assumes b: "utf8_valid b"
  shows "utf8_valid a \<Longrightarrow> utf8_valid (a @ b)"
proof (induction "length a" arbitrary: a rule: less_induct)
  case less
  show ?case
  proof (cases a)
    case Nil
    then show ?thesis using b by simp
  next
    case (Cons c cs)
    have v: "utf8_valid (c # cs)" using less.prems Cons by simp
    consider (one) "byte_in 0x00 0x7F c"
      | (two) "\<not> byte_in 0x00 0x7F c" "byte_in 0xC2 0xDF c"
      | (three) "\<not> byte_in 0x00 0x7F c" "\<not> byte_in 0xC2 0xDF c" "byte_in 0xE0 0xEF c"
      | (four) "\<not> byte_in 0x00 0x7F c" "\<not> byte_in 0xC2 0xDF c" "\<not> byte_in 0xE0 0xEF c"
          "byte_in 0xF0 0xF4 c"
      | (bad) "\<not> byte_in 0x00 0x7F c" "\<not> byte_in 0xC2 0xDF c" "\<not> byte_in 0xE0 0xEF c"
          "\<not> byte_in 0xF0 0xF4 c"
      by blast
    then show ?thesis
    proof cases
      case one
      then have "utf8_valid cs" using v by simp
      then have "utf8_valid (cs @ b)" using less.hyps [of cs] Cons by simp
      then show ?thesis using one Cons by simp
    next
      case two
      then obtain c1 r where cs: "cs = c1 # r" and f: "cont_byte c1" "utf8_valid r"
        using v by (cases cs) auto
      have "utf8_valid (r @ b)" using less.hyps [of r] f Cons cs by simp
      then show ?thesis using two Cons cs f by simp
    next
      case three
      then obtain c1 c2 r where cs: "cs = c1 # c2 # r"
        and f: "second_byte c c1" "cont_byte c2" "utf8_valid r"
        using v by (cases cs; cases "tl cs") auto
      have "utf8_valid (r @ b)" using less.hyps [of r] f Cons cs by simp
      then show ?thesis using three Cons cs f by simp
    next
      case four
      then obtain c1 c2 c3 r where cs: "cs = c1 # c2 # c3 # r"
        and f: "second_byte c c1" "cont_byte c2" "cont_byte c3" "utf8_valid r"
        using v by (cases cs; cases "tl cs"; cases "tl (tl cs)") auto
      have "utf8_valid (r @ b)" using less.hyps [of r] f Cons cs by simp
      then show ?thesis using four Cons cs f by simp
    next
      case bad
      then show ?thesis using v by simp
    qed
  qed
qed

section \<open>Facts about the object store\<close>

declare split_first.simps [simp del]

lemma header_facts:
  assumes "utf8_valid t" "CHR '' '' \<notin> set t" "NUL \<notin> set t"
  shows "split_first [NUL] (encode_utf8 (t @ '' '' @ str_of_nat n @ [NUL]) @ c)
           = Some (t @ '' '' @ str_of_nat n, c)"
    and "decode_utf8 (t @ '' '' @ str_of_nat n) = Inr (t @ '' '' @ str_of_nat n)"
    and "split_all (CHR '' '') (t @ '' '' @ str_of_nat n) = [t, str_of_nat n]"
proof -
  have d: "\<And>x. x \<in> set (str_of_nat n) \<Longrightarrow> plain x" using str_of_nat_digits by blast
  have nn: "NUL \<notin> set (t @ '' '' @ str_of_nat n)"
    using assms(3) d plain_neq by (auto simp: NUL_def)
  have "encode_utf8 (t @ '' '' @ str_of_nat n @ [NUL]) @ c = (t @ '' '' @ str_of_nat n) @ NUL # c"
    by (simp add: encode_utf8_def)
  then show "split_first [NUL] (encode_utf8 (t @ '' '' @ str_of_nat n @ [NUL]) @ c)
           = Some (t @ '' '' @ str_of_nat n, c)"
    using split_first_single [OF nn] by simp
  have "utf8_valid ('' '' @ str_of_nat n)"
    by (rule utf8_valid_ascii) (use d in \<open>fastforce simp: plain_def\<close>)
  then have "utf8_valid (t @ '' '' @ str_of_nat n)"
    using assms(1) utf8_valid_append by blast
  then show "decode_utf8 (t @ '' '' @ str_of_nat n) = Inr (t @ '' '' @ str_of_nat n)"
    by (simp add: decode_utf8_def)
  have "CHR '' '' \<notin> set (str_of_nat n)" using d plain_neq by blast
  then show "split_all (CHR '' '') (t @ '' '' @ str_of_nat n) = [t, str_of_nat n]"
    using split_all_one [OF assms(2)] by simp
qed

lemma retrieve_stored:
  assumes "utf8_valid t" "CHR '' '' \<notin> set t" "NUL \<notin> set t"
    and "objects st (object_path h)
           = Some (zlib_compress (encode_utf8 (t @ '' '' @ str_of_nat (length c) @ [NUL]) @ c))"
  shows "retrieve_object st h = Inr (t, c)"
  using assms(4) header_facts [OF assms(1-3)]
  by (simp add: retrieve_object_def zlib_compress_def py_int_str_of_nat)

lemma store_object_fst: "fst (store_object st t c) = hash_content t c"
  by (simp add: store_object_def Let_def)

lemma store_object_present:
  assumes "objects st (object_path (hash_content t c)) \<noteq> None"
  shows "store_object st t c = (hash_content t c, st)"
proof -
  from assms obtain z where "objects st (object_path (hash_content t c)) = Some z" by auto
  then show ?thesis by (simp add: store_object_def Let_def)
qed

lemma store_object_absent:
  "objects st (object_path (hash_content t c)) = None \<Longrightarrow>
   objects (snd (store_object st t c)) (object_path (hash_content t c))
     = Some (zlib_compress (encode_utf8 (t @ '' '' @ str_of_nat (length c) @ [NUL]) @ c))"
  by (simp add: store_object_def Let_def)


lemma split_all_nonempty: "split_all c s \<noteq> []"
  by (induction s) (auto split: list.splits)


lemma store_object_keeps:
  "objects st p = Some z \<Longrightarrow> objects (snd (store_object st t c)) p = Some z"
  by (auto simp: store_object_def Let_def)

lemma store_all_keeps:
  "objects st p = Some z \<Longrightarrow> objects (store_all st ops) p = Some z"
  by (induction ops arbitrary: st) (auto simp: store_object_keeps)

text \<open>Every path is written at most once, and only where a file now is.\<close>

definition write_once :: "store \<Rightarrow> bool" where
  "write_once st = (distinct (writes st) \<and> set (writes st) \<subseteq> dom (objects st))"

lemma write_once_store_object: "write_once st \<Longrightarrow> write_once (snd (store_object st t c))"
  by (auto simp: write_once_def store_object_def Let_def)

lemma write_once_store_all: "write_once st \<Longrightarrow> write_once (store_all st ops)"
  by (induction ops arbitrary: st) (auto simp: write_once_store_object)

lemma distinct_count_le_1: "distinct xs \<Longrightarrow> count_list xs x \<le> 1"
  by (induction xs) auto

section \<open>Stage 1: what the object store guarantees\<close>

definition empty_store :: store where
  "empty_store = \<lparr>objects = Map.empty, writes = []\<rparr>"

text \<open>
  Claim C1. The address \<open>store_object\<close> returns is the hexadecimal SHA-1 digest of the
  framed bytes \<open>"<kind> <byte-length>\\0" + content\<close>: 40 characters, each a lowercase
  hexadecimal digit. It does not depend on the store, so two calls with the same kind and
  content return the same address whatever the stores hold.
\<close>

theorem store_object_address:
  "fst (store_object st kind content)
     = hex (sha1 (kind @ '' '' @ str_of_nat (length content) @ [NUL] @ content))
   \<and> length (fst (store_object st kind content)) = 40
   \<and> set (fst (store_object st kind content)) \<subseteq> set ''0123456789abcdef''
   \<and> fst (store_object st' kind content) = fst (store_object st kind content)"
proof -
  have "set (hash_content kind content) \<subseteq> set ''0123456789abcdef''"
    unfolding hash_content_def Let_def by (rule set_hex)
  then show ?thesis
    by (simp add: store_object_fst)
      (simp add: hash_content_def encode_utf8_def length_hex length_sha1)
qed

lemma retrieve_after_store:
  assumes "utf8_valid kind" and "CHR '' '' \<notin> set kind" and "NUL \<notin> set kind"
    and "objects st (object_path (hash_content kind content)) = None
         \<or> objects st (object_path (hash_content kind content))
            = Some (zlib_compress
                (encode_utf8 (kind @ '' '' @ str_of_nat (length content) @ [NUL]) @ content))"
  shows "retrieve_object (snd (store_object st kind content)) (fst (store_object st kind content))
         = Inr (kind, content)"
proof -
  let ?p = "object_path (hash_content kind content)"
  let ?z = "zlib_compress
     (encode_utf8 (kind @ '' '' @ str_of_nat (length content) @ [NUL]) @ content)"
  have "objects (snd (store_object st kind content)) ?p = Some ?z"
  proof (cases "objects st ?p")
    case None
    then show ?thesis by (rule store_object_absent)
  next
    case (Some z)
    with assms(4) have "objects st ?p = Some ?z" by simp
    then show ?thesis by (rule store_object_keeps)
  qed
  then show ?thesis
    using retrieve_stored [OF assms(1-3)] by (simp add: store_object_fst)
qed

text \<open>
  Claim C2, amended. For a kind without space and NUL, and a store where the object's address
  is vacant or already holds this object, \<open>retrieve_object\<close> after \<open>store_object\<close> returns
  the pair of kind and content.
\<close>

theorem put_then_get:
  assumes "utf8_valid kind" and "CHR '' '' \<notin> set kind" and "NUL \<notin> set kind"
    and "objects st (object_path (hash_content kind content)) = None
         \<or> objects st (object_path (hash_content kind content))
            = Some (zlib_compress
                (encode_utf8 (kind @ '' '' @ str_of_nat (length content) @ [NUL]) @ content))"
  shows "retrieve_object (snd (store_object st kind content)) (fst (store_object st kind content))
         = Inr (kind, content)"
  using assms by (rule retrieve_after_store)

text \<open>
  The hypotheses of C2 hold for the blob \<open>hi\<close> put into the empty store.
\<close>

theorem put_then_get_witness:
  "utf8_valid ''blob'' \<and> CHR '' '' \<notin> set ''blob'' \<and> NUL \<notin> set ''blob''
   \<and> objects empty_store (object_path (hash_content ''blob'' ''hi'')) = None
   \<and> retrieve_object (snd (store_object empty_store ''blob'' ''hi''))
        (fst (store_object empty_store ''blob'' ''hi'')) = Inr (''blob'', ''hi'')"
  using put_then_get [of "''blob''" empty_store "''hi''"]
  by (simp add: empty_store_def byte_in_def NUL_def)

definition occupied_store :: store where
  "occupied_store =
     \<lparr>objects = [object_path (hash_content ''blob'' ''hi'')
                   \<mapsto> zlib_compress (encode_utf8 (''blob'' @ '' '' @ str_of_nat (length ''x'') @ [NUL]) @ ''x'')],
      writes = []\<rparr>"

text \<open>
  Claim C2 as stated fails in a store that holds another object at the address:
  \<open>store_object\<close> never rewrites a file, and \<open>retrieve_object\<close> returns what is there.
  Here the file at the address of the blob \<open>hi\<close> is the object file of the blob \<open>x\<close>.
\<close>

theorem put_then_get_counterexample:
  "utf8_valid ''blob'' \<and> CHR '' '' \<notin> set ''blob'' \<and> NUL \<notin> set ''blob''
   \<and> retrieve_object (snd (store_object occupied_store ''blob'' ''hi''))
        (fst (store_object occupied_store ''blob'' ''hi'')) = Inr (''blob'', ''x'')
   \<and> (''blob'', ''x'') \<noteq> (''blob'', ''hi'')"
proof -
  have k: "utf8_valid ''blob''" "CHR '' '' \<notin> set ''blob''" "NUL \<notin> set ''blob''"
    by (simp_all add: byte_in_def NUL_def)
  have p: "objects occupied_store (object_path (hash_content ''blob'' ''hi'')) \<noteq> None"
    by (simp add: occupied_store_def)
  have "retrieve_object occupied_store (hash_content ''blob'' ''hi'') = Inr (''blob'', ''x'')"
    by (rule retrieve_stored [OF k]) (simp add: occupied_store_def)
  then show ?thesis
    using k by (simp add: store_object_present [OF p])
qed

text \<open>
  Claim C3. \<open>store_object\<close> returns the digest whether or not the object exists; a
  second put of the same kind and content changes nothing and returns the same address;
  a put on an occupied address leaves the store as it is; no sequence of puts changes a
  file that is present; and over any sequence of puts, starting from an empty log of
  writes, every path (so the path of every pair of kind and content) is written at most
  once.
\<close>

theorem put_idempotent:
  "fst (store_object st kind content) = hash_content kind content
   \<and> store_object (snd (store_object st kind content)) kind content
       = (hash_content kind content, snd (store_object st kind content))
   \<and> (objects st (object_path (hash_content kind content)) \<noteq> None
        \<longrightarrow> store_object st kind content = (hash_content kind content, st))
   \<and> (objects st p = Some z \<longrightarrow> objects (store_all st ops) p = Some z)
   \<and> (writes st = [] \<longrightarrow> count_list (writes (store_all st ops)) p \<le> 1)"
proof -
  have 2: "store_object (snd (store_object st kind content)) kind content
       = (hash_content kind content, snd (store_object st kind content))"
  proof (rule store_object_present)
    show "objects (snd (store_object st kind content)) (object_path (hash_content kind content)) \<noteq> None"
      by (cases "objects st (object_path (hash_content kind content))")
        (simp_all add: store_object_absent store_object_keeps)
  qed
  have 5: "writes st = [] \<Longrightarrow> count_list (writes (store_all st ops)) p \<le> 1"
  proof -
    assume "writes st = []"
    then have "write_once st" by (simp add: write_once_def)
    then have "write_once (store_all st ops)" by (rule write_once_store_all)
    then have "distinct (writes (store_all st ops))" by (simp add: write_once_def)
    then show ?thesis by (rule distinct_count_le_1)
  qed
  show ?thesis
    using 2 5 by (simp add: store_object_fst store_object_present store_all_keeps)
qed

text \<open>
  The hypotheses of C3 at the blob \<open>hi\<close>, put twice among three puts: one write.
\<close>

theorem put_idempotent_witness:
  "objects (snd (store_object empty_store ''blob'' ''hi''))
       (object_path (hash_content ''blob'' ''hi'')) \<noteq> None
   \<and> store_object (snd (store_object empty_store ''blob'' ''hi'')) ''blob'' ''hi''
       = (hash_content ''blob'' ''hi'', snd (store_object empty_store ''blob'' ''hi''))
   \<and> writes empty_store = []
   \<and> count_list (writes (store_all empty_store [(''blob'', ''hi''), (''blob'', ''hi''), (''tree'', ''t'')]))
        (object_path (hash_content ''blob'' ''hi'')) = 1"
proof -
  let ?p = "object_path (hash_content ''blob'' ''hi'')"
  let ?ops = "[(''blob'', ''hi''), (''blob'', ''hi''), (''tree'', ''t'')]"
  have e: "objects empty_store ?p = None" "writes empty_store = []"
    by (simp_all add: empty_store_def)
  have 1: "objects (snd (store_object empty_store ''blob'' ''hi'')) ?p \<noteq> None"
    by (simp add: store_object_absent [OF e(1)])
  have w: "?p \<in> set (writes (snd (store_object empty_store ''blob'' ''hi'')))"
    using e by (simp add: store_object_def Let_def)
  have mono: "\<And>st t c x. x \<in> set (writes st) \<Longrightarrow> x \<in> set (writes (snd (store_object st t c)))"
    by (simp add: store_object_def Let_def)
  have "?p \<in> set (writes (store_all empty_store ?ops))"
    using w by (simp add: mono)
  then have "count_list (writes (store_all empty_store ?ops)) ?p \<noteq> 0"
    by (simp add: count_list_0_iff)
  moreover have "count_list (writes (store_all empty_store ?ops)) ?p \<le> 1"
    using put_idempotent [of empty_store "''blob''" "''hi''" ?p "Deflated []" ?ops] e(2) by blast
  ultimately have "count_list (writes (store_all empty_store ?ops)) ?p = 1" by linarith
  then show ?thesis
    using 1 e(2) put_idempotent [of "snd (store_object empty_store ''blob'' ''hi'')" "''blob''" "''hi''"]
    by simp
qed




section \<open>Stage 2: blobs and trees\<close>

text \<open>
  A tree entry is the tuple \<open>(mode, obj_type, obj_hash, name)\<close> that
  \<open>create_tree_from_directory\<close> appends.
\<close>

type_synonym entry = "str \<times> str \<times> str \<times> str"

definition entry_name :: "entry \<Rightarrow> str" where
  "entry_name e = (case e of (mode, obj_type, obj_hash, name) \<Rightarrow> name)"

text \<open>The body of the loop of \<open>_build_tree_content\<close>, over the sorted entries.\<close>

fun build_tree_loop :: "entry list \<Rightarrow> bytes \<Rightarrow> error + bytes" where
  "build_tree_loop [] content = Inr content"
| "build_tree_loop ((mode, obj_type, obj_hash, name) # es) content =
     (let entry = encode_utf8 (mode @ '' '' @ name @ [NUL])
      in case fromhex obj_hash of
           None \<Rightarrow> Inl ValueError_fromhex
         | Some hash_bytes \<Rightarrow> build_tree_loop es (content @ entry @ hash_bytes))"

text \<open>
  \<open>_build_tree_content\<close>: \<open>sorted(entries, key=lambda x: x[3])\<close> is a stable sort by name,
  as \<open>sort_key\<close> is.
\<close>

definition build_tree_content :: "entry list \<Rightarrow> error + bytes" where
  "build_tree_content entries = build_tree_loop (sort_key entry_name entries) []"

text \<open>
  What \<open>create_tree_from_directory\<close> reads of the file system: a regular file with its
  bytes and its owner-execute bit, a directory with its children by name, or anything
  for which both \<open>is_file()\<close> and \<open>is_dir()\<close> are false (a dangling link, a socket).
\<close>

datatype fs_node = File bytes bool | Dir "(str \<times> fs_node) list" | Other

text \<open>\<open>_get_file_mode\<close>; the program calls it on regular files only.\<close>

fun get_file_mode :: "fs_node \<Rightarrow> str" where
  "get_file_mode (Dir children) = ''40000''"
| "get_file_mode (File content executable) = (if executable then ''100755'' else ''100644'')"
| "get_file_mode Other = ''100644''"

text \<open>The size of a list of children, for the termination of the walk.\<close>

definition children_size :: "(str \<times> fs_node) list \<Rightarrow> nat" where
  "children_size cs = size_list (size_prod (\<lambda>n. 0) size) cs"

lemma children_size_sort: "children_size (sort_key f cs) = children_size cs"
proof -
  have "sum_list (map g (sort_key f cs)) = sum_list (map g cs)" for g :: "str \<times> fs_node \<Rightarrow> nat"
  proof -
    have "sum_mset (mset (map g (sort_key f cs))) = sum_mset (mset (map g cs))" by simp
    then show ?thesis by (simp only: sum_mset_sum_list)
  qed
  then show ?thesis by (simp add: children_size_def size_list_conv_sum_list)
qed

text \<open>
  \<open>create_tree_from_directory\<close> on the directory called \<open>name\<close> with the given children,
  and the body of its loop over the sorted children with the entries collected so far.
  \<open>git_dir\<close> is the constant \<open>GIT_DIR\<close> of the module \<open>static\<close>. An exception ends the
  walk; the objects stored until then stay. The test \<open>if subtree_hash\<close> fails on \<open>None\<close>
  and on the empty string.
\<close>

function create_tree_from_directory ::
    "str \<Rightarrow> store \<Rightarrow> str \<Rightarrow> (str \<times> fs_node) list \<Rightarrow> (error + str option) \<times> store"
  and tree_entries ::
    "str \<Rightarrow> store \<Rightarrow> (str \<times> fs_node) list \<Rightarrow> entry list \<Rightarrow> (error + entry list) \<times> store"
where
  "create_tree_from_directory git_dir st name children =
     (if name = git_dir then (Inr None, st)
      else (case tree_entries git_dir st (sort_key fst children) [] of
              (Inl e, st') \<Rightarrow> (Inl e, st')
            | (Inr entries, st') \<Rightarrow>
                if entries = [] then (Inr None, st')
                else (case build_tree_content entries of
                        Inl e \<Rightarrow> (Inl e, st')
                      | Inr tree_content \<Rightarrow>
                          (case store_object st' ''tree'' tree_content of
                             (tree_hash, st'') \<Rightarrow> (Inr (Some tree_hash), st'')))))"
| "tree_entries git_dir st [] entries = (Inr entries, st)"
| "tree_entries git_dir st ((item_name, item) # items) entries =
     (if startswith item_name ''.'' then tree_entries git_dir st items entries
      else (case item of
              File content executable \<Rightarrow>
                (case store_object st ''blob'' content of
                   (blob_hash, st') \<Rightarrow>
                     tree_entries git_dir st' items
                       (entries @ [(get_file_mode item, ''blob'', blob_hash, item_name)]))
            | Dir sub \<Rightarrow>
                (case create_tree_from_directory git_dir st item_name sub of
                   (Inl e, st') \<Rightarrow> (Inl e, st')
                 | (Inr None, st') \<Rightarrow> tree_entries git_dir st' items entries
                 | (Inr (Some subtree_hash), st') \<Rightarrow>
                     if subtree_hash \<noteq> []
                     then tree_entries git_dir st' items
                            (entries @ [(''40000'', ''tree'', subtree_hash, item_name)])
                     else tree_entries git_dir st' items entries)
            | Other \<Rightarrow> tree_entries git_dir st items entries))"
  by pat_completeness auto
termination
  by (relation "measure (\<lambda>x. case x of
          Inl (git_dir, st, name, children) \<Rightarrow> Suc (children_size children)
        | Inr (git_dir, st, items, entries) \<Rightarrow> children_size items)")
    (auto simp: children_size_sort, auto simp: children_size_def)

section \<open>Stage 2: what the tree builder guarantees\<close>

text \<open>
  An item that adds no entry to its parent: a hidden name, something that is neither file
  nor directory, the directory \<open>git_dir\<close>, or a directory of such items only.
\<close>

fun barren :: "str \<Rightarrow> str \<Rightarrow> fs_node \<Rightarrow> bool" where
  "barren git_dir n (File content executable) = startswith n ''.''"
| "barren git_dir n Other = True"
| "barren git_dir n (Dir cs) =
     (startswith n ''.'' \<or> n = git_dir \<or> (\<forall>(m, c) \<in> set cs. barren git_dir m c))"

lemma sort_key_distinct_perm:
  assumes "distinct (map f xs)" "mset ys = mset xs"
  shows "sort_key f ys = sort_key f xs"
proof (rule sort_key_inj_key_eq)
  show "mset ys = mset (sort_key f xs)" using assms(2) by simp
  have "set ys = set xs" using assms(2) by (rule mset_eq_setD)
  then show "inj_on f (set ys)" using assms(1) by (simp add: distinct_map)
  show "sorted (map f (sort_key f xs))" by simp
qed

lemma barren_walk:
  "(\<forall>(m, c) \<in> set children. barren git_dir m c)
     \<longrightarrow> create_tree_from_directory git_dir st name children = (Inr None, st)"
  "(\<forall>(m, c) \<in> set items. barren git_dir m c)
     \<longrightarrow> tree_entries git_dir st items entries = (Inr entries, st)"
proof (induction git_dir st name children and git_dir st items entries
    rule: create_tree_from_directory_tree_entries.induct)
  case (1 git_dir st name children)
  then show ?case by auto
next
  case (2 git_dir st entries)
  then show ?case by simp
next
  case (3 git_dir st item_name item items entries)
  show ?case
  proof (intro impI)
    assume a: "\<forall>(m, c) \<in> set ((item_name, item) # items). barren git_dir m c"
    then have b: "barren git_dir item_name item" and r: "\<forall>(m, c) \<in> set items. barren git_dir m c"
      by auto
    show "tree_entries git_dir st ((item_name, item) # items) entries = (Inr entries, st)"
    proof (cases "startswith item_name ''.''")
      case True
      then show ?thesis using "3.IH"(1) r by simp
    next
      case False
      show ?thesis
      proof (cases item)
        case (File content executable)
        then show ?thesis using b False by simp
      next
        case (Dir sub)
        have ct: "create_tree_from_directory git_dir st item_name sub = (Inr None, st)"
        proof (cases "item_name = git_dir")
          case True
          then show ?thesis by simp
        next
          case ng: False
          then have "\<forall>(m, c) \<in> set sub. barren git_dir m c" using b False Dir by simp
          then show ?thesis using "3.IH"(3) [OF False Dir] by simp
        qed
        show ?thesis using "3.IH"(4) [OF False Dir ct [symmetric] refl refl] r False Dir ct
          by simp
      next
        case Other
        then show ?thesis using "3.IH"(7) [OF False Other] r False by simp
      qed
    qed
  qed
qed

lemma create_tree_Some_nonempty:
  assumes "create_tree_from_directory git_dir st name children = (Inr (Some h), st')"
  shows "h \<noteq> []"
proof -
  from assms obtain st1 c where "store_object st1 ''tree'' c = (h, st')"
    by (auto split: if_splits prod.splits sum.splits)
  then have "h = fst (store_object st1 ''tree'' c)" by simp
  then have "length h = 40"
    by (simp add: store_object_fst hash_content_def length_hex length_sha1)
  then show ?thesis by auto
qed

lemma absent_stores_nothing:
  "create_tree_from_directory git_dir st name children = (Inr None, st') \<longrightarrow> st' = st"
  "tree_entries git_dir st items entries = (Inr es, st')
     \<longrightarrow> length entries \<le> length es \<and> (length es = length entries \<longrightarrow> st' = st)"
proof (induction git_dir st name children and git_dir st items entries
    arbitrary: st' and es st'
    rule: create_tree_from_directory_tree_entries.induct)
  case (1 git_dir st name children)
  show ?case
  proof (cases "name = git_dir")
    case True
    then show ?thesis by simp
  next
    case False
    show ?thesis
    proof (intro impI)
      assume a: "create_tree_from_directory git_dir st name children = (Inr None, st')"
      obtain r st1 where t: "tree_entries git_dir st (sort_key fst children) [] = (r, st1)"
        by (cases "tree_entries git_dir st (sort_key fst children) []") auto
      from a t False have "r = Inr []" "st1 = st'"
        by (auto split: sum.splits if_splits prod.splits)
      with t "1.IH" [OF False, of "[]" st'] show "st' = st" by simp
    qed
  qed
next
  case (2 git_dir st entries)
  then show ?case by simp
next
  case (3 git_dir st item_name item items entries)
  show ?case
  proof (intro impI)
    assume a: "tree_entries git_dir st ((item_name, item) # items) entries = (Inr es, st')"
    show "length entries \<le> length es \<and> (length es = length entries \<longrightarrow> st' = st)"
    proof (cases "startswith item_name ''.''")
      case True
      then show ?thesis using "3.IH"(1) [OF True, of es st'] a by simp
    next
      case False
      show ?thesis
      proof (cases item)
        case (File content executable)
        obtain h st1 where s: "store_object st ''blob'' content = (h, st1)"
          by (cases "store_object st ''blob'' content") auto
        from a False File s
        have "tree_entries git_dir st1 items (entries @ [(get_file_mode item, ''blob'', h, item_name)])
              = (Inr es, st')" by simp
        then show ?thesis
          using "3.IH"(2) [OF False File s [symmetric], of es st'] by simp
      next
        case (Dir sub)
        obtain r st1 where ct: "create_tree_from_directory git_dir st item_name sub = (r, st1)"
          by (cases "create_tree_from_directory git_dir st item_name sub") auto
        from a False Dir ct obtain b where r: "r = Inr b"
          by (cases r) auto
        show ?thesis
        proof (cases b)
          case None
          have "st1 = st" using "3.IH"(3) [OF False Dir, of st1] ct r None by simp
          moreover have "tree_entries git_dir st1 items entries = (Inr es, st')"
            using a False Dir ct r None by simp
          ultimately show ?thesis
            using "3.IH"(4) [OF False Dir ct [symmetric] r None, of es st'] by simp
        next
          case (Some h)
          have ne: "h \<noteq> []" using create_tree_Some_nonempty ct r Some by blast
          then have "tree_entries git_dir st1 items (entries @ [(''40000'', ''tree'', h, item_name)])
              = (Inr es, st')"
            using a False Dir ct r Some by simp
          then show ?thesis
            using "3.IH"(5) [OF False Dir ct [symmetric] r Some ne, of es st'] by simp
        qed
      next
        case Other
        then show ?thesis using "3.IH"(7) [OF False Other, of es st'] a False by simp
      qed
    qed
  qed
qed

text \<open>
  Claim C5, amended. \<open>_build_tree_content\<close> sorts the entries by name before it
  concatenates them, so for every entry list with pairwise distinct names and every
  permutation of it, the tree content is the same bytes (or the same error), and so is the
  address of the tree object.
\<close>

theorem tree_order_independent:
  assumes "distinct (map entry_name entries)" and "mset entries' = mset entries"
  shows "build_tree_content entries' = build_tree_content entries
    \<and> (\<forall>c c'. build_tree_content entries = Inr c \<and> build_tree_content entries' = Inr c'
          \<longrightarrow> fst (store_object st' ''tree'' c') = fst (store_object st ''tree'' c))"
proof -
  have "sort_key entry_name entries' = sort_key entry_name entries"
    using assms by (rule sort_key_distinct_perm)
  then have "build_tree_content entries' = build_tree_content entries"
    by (simp add: build_tree_content_def)
  then show ?thesis by (auto simp: store_object_fst)
qed

text \<open>Entries of two files, and a second entry under the name of the first.\<close>

definition entry_f :: entry where
  "entry_f = (''100644'', ''blob'', ''0000000000000000000000000000000000000000'', ''f'')"

definition entry_g :: entry where
  "entry_g = (''100755'', ''blob'', ''1111111111111111111111111111111111111111'', ''g'')"

definition entry_f' :: entry where
  "entry_f' = (''100644'', ''blob'', ''1111111111111111111111111111111111111111'', ''f'')"

lemma fromhex_zeros:
  "fromhex ''0000000000000000000000000000000000000000'' = Some (replicate 20 (CHR 0x00))"
  by code_simp

lemma fromhex_ones:
  "fromhex ''1111111111111111111111111111111111111111'' = Some (replicate 20 (CHR 0x11))"
  by code_simp

text \<open>
  The entries \<open>f\<close> and \<open>g\<close> in both orders give the same content.
\<close>

theorem tree_order_independent_witness:
  "distinct (map entry_name [entry_f, entry_g]) \<and> mset [entry_g, entry_f] = mset [entry_f, entry_g]
   \<and> build_tree_content [entry_g, entry_f] = build_tree_content [entry_f, entry_g]
   \<and> build_tree_content [entry_f, entry_g]
       = Inr (''100644 f'' @ [NUL] @ replicate 20 (CHR 0x00) @ ''100755 g'' @ [NUL] @ replicate 20 (CHR 0x11))"
proof -
  have d: "distinct (map entry_name [entry_f, entry_g])"
    by (simp add: entry_name_def entry_f_def entry_g_def)
  have m: "mset [entry_g, entry_f] = mset [entry_f, entry_g]" by (simp add: add.commute)
  have "sort_key entry_name [entry_f, entry_g] = [entry_f, entry_g]"
    by (simp add: entry_name_def entry_f_def entry_g_def)
  then have "build_tree_content [entry_f, entry_g]
       = Inr (''100644 f'' @ [NUL] @ replicate 20 (CHR 0x00) @ ''100755 g'' @ [NUL] @ replicate 20 (CHR 0x11))"
    unfolding build_tree_content_def
    by (simp add: entry_f_def entry_g_def fromhex_zeros fromhex_ones encode_utf8_def del: fromhex.simps)
  then show ?thesis
    using d m tree_order_independent [OF d m] by simp
qed

text \<open>
  Claim C5 as stated fails on an entry list with a repeated name: the sort is stable, so
  two entries called \<open>f\<close> stay in the order they came in, and the two orders give
  different bytes.
\<close>

theorem tree_order_counterexample:
  "mset [entry_f', entry_f] = mset [entry_f, entry_f']
   \<and> build_tree_content [entry_f, entry_f']
       = Inr (''100644 f'' @ [NUL] @ replicate 20 (CHR 0x00) @ ''100644 f'' @ [NUL] @ replicate 20 (CHR 0x11))
   \<and> build_tree_content [entry_f', entry_f]
       = Inr (''100644 f'' @ [NUL] @ replicate 20 (CHR 0x11) @ ''100644 f'' @ [NUL] @ replicate 20 (CHR 0x00))
   \<and> build_tree_content [entry_f', entry_f] \<noteq> build_tree_content [entry_f, entry_f']"
proof -
  have m: "mset [entry_f', entry_f] = mset [entry_f, entry_f']" by (simp add: add.commute)
  have 1: "sort_key entry_name [entry_f, entry_f'] = [entry_f, entry_f']"
    by (simp add: entry_name_def entry_f_def entry_f'_def)
  have 2: "sort_key entry_name [entry_f', entry_f] = [entry_f', entry_f]"
    by (simp add: entry_name_def entry_f_def entry_f'_def)
  have a: "build_tree_content [entry_f, entry_f']
       = Inr (''100644 f'' @ [NUL] @ replicate 20 (CHR 0x00) @ ''100644 f'' @ [NUL] @ replicate 20 (CHR 0x11))"
    unfolding build_tree_content_def 1
    by (simp add: entry_f_def entry_f'_def fromhex_zeros fromhex_ones encode_utf8_def del: fromhex.simps)
  have b: "build_tree_content [entry_f', entry_f]
       = Inr (''100644 f'' @ [NUL] @ replicate 20 (CHR 0x11) @ ''100644 f'' @ [NUL] @ replicate 20 (CHR 0x00))"
    unfolding build_tree_content_def 2
    by (simp add: entry_f_def entry_f'_def fromhex_zeros fromhex_ones encode_utf8_def del: fromhex.simps)
  have "build_tree_content [entry_f', entry_f] \<noteq> build_tree_content [entry_f, entry_f']"
    unfolding a b by (simp add: numeral_eq_Suc)
  then show ?thesis using m a b by simp
qed

text \<open>
  Claim C6. A directory whose items are all skipped or (recursively) empty yields absent
  and leaves the store as it was; whenever \<open>create_tree_from_directory\<close> returns absent,
  nothing at all was stored; an empty final entry list yields absent; and a subdirectory
  whose own build is absent adds nothing to the entries of its parent.
\<close>

theorem empty_directory_elided:
  "((\<forall>(m, c) \<in> set children. barren git_dir m c)
      \<longrightarrow> create_tree_from_directory git_dir st name children = (Inr None, st))
   \<and> (create_tree_from_directory git_dir st name children = (Inr None, st') \<longrightarrow> st' = st)
   \<and> (tree_entries git_dir st (sort_key fst children) [] = (Inr [], st')
      \<longrightarrow> create_tree_from_directory git_dir st name children = (Inr None, st'))
   \<and> (\<not> startswith n ''.'' \<and> create_tree_from_directory git_dir st n sub = (Inr None, st')
      \<longrightarrow> tree_entries git_dir st ((n, Dir sub) # items) entries
          = tree_entries git_dir st' items entries)"
proof (intro conjI)
  show "(\<forall>(m, c) \<in> set children. barren git_dir m c)
      \<longrightarrow> create_tree_from_directory git_dir st name children = (Inr None, st)"
    by (rule barren_walk(1))
  show "create_tree_from_directory git_dir st name children = (Inr None, st') \<longrightarrow> st' = st"
    by (rule absent_stores_nothing(1))
  show "tree_entries git_dir st (sort_key fst children) [] = (Inr [], st')
      \<longrightarrow> create_tree_from_directory git_dir st name children = (Inr None, st')"
  proof
    assume a: "tree_entries git_dir st (sort_key fst children) [] = (Inr [], st')"
    then have "st' = st" using absent_stores_nothing(2) [of git_dir st "sort_key fst children" "[]" "[]" st']
      by simp
    with a show "create_tree_from_directory git_dir st name children = (Inr None, st')"
      by simp
  qed
  show "\<not> startswith n ''.'' \<and> create_tree_from_directory git_dir st n sub = (Inr None, st')
      \<longrightarrow> tree_entries git_dir st ((n, Dir sub) # items) entries
          = tree_entries git_dir st' items entries"
    by simp
qed

text \<open>
  A working directory with a hidden file, an empty directory, a directory that holds only
  an empty directory, the repository's own directory and a dangling link.
\<close>

definition hollow_dir :: "(str \<times> fs_node) list" where
  "hollow_dir =
     [(''.hidden'', File ''x'' False),
      (''empty'', Dir []),
      (''nested'', Dir [(''deeper'', Dir [])]),
      (''.git'', Dir [(''HEAD'', File ''ref: refs/heads/main'' False)]),
      (''link'', Other)]"

text \<open>
  The hypotheses of C6 on the directory above.
\<close>

theorem empty_directory_elided_witness:
  "list_all (\<lambda>(m, c). barren ''.git'' m c) hollow_dir
   \<and> create_tree_from_directory ''.git'' empty_store ''work'' hollow_dir = (Inr None, empty_store)
   \<and> tree_entries ''.git'' empty_store (sort_key fst hollow_dir) [] = (Inr [], empty_store)
   \<and> \<not> startswith ''nested'' ''.''
   \<and> create_tree_from_directory ''.git'' empty_store ''nested'' [(''deeper'', Dir [])]
       = (Inr None, empty_store)
   \<and> tree_entries ''.git'' empty_store [(''nested'', Dir [(''deeper'', Dir [])]), (''link'', Other)] []
       = tree_entries ''.git'' empty_store [(''link'', Other)] []"
proof -
  have b: "\<forall>(m, c) \<in> set hollow_dir. barren ''.git'' m c"
    by (simp add: hollow_dir_def startswith_def)
  have 1: "create_tree_from_directory ''.git'' empty_store ''work'' hollow_dir = (Inr None, empty_store)"
    using empty_directory_elided [of hollow_dir "''.git''" empty_store "''work''"] b by blast
  have "\<forall>(m, c) \<in> set (sort_key fst hollow_dir). barren ''.git'' m c"
    using b by simp
  then have 2: "tree_entries ''.git'' empty_store (sort_key fst hollow_dir) [] = (Inr [], empty_store)"
    using barren_walk(2) by blast
  have 3: "\<not> startswith ''nested'' ''.''" by (simp add: startswith_def)
  have 4: "create_tree_from_directory ''.git'' empty_store ''nested'' [(''deeper'', Dir [])]
       = (Inr None, empty_store)"
    using empty_directory_elided [of "[(''deeper'', Dir [])]" "''.git''" empty_store "''nested''"]
    by simp
  have 5: "tree_entries ''.git'' empty_store [(''nested'', Dir [(''deeper'', Dir [])]), (''link'', Other)] []
       = tree_entries ''.git'' empty_store [(''link'', Other)] []"
    using empty_directory_elided [of _ "''.git''" empty_store _ empty_store "''nested''"
        "[(''deeper'', Dir [])]" "[(''link'', Other)]" "[]"] 3 4
    by blast
  show ?thesis using b 1 2 3 4 5 by (simp add: list_all_iff)
qed
































section \<open>Stage 3: commits\<close>

definition LF :: char where
  "LF = CHR 0x0A"

text \<open>\<open>sep.join(lines)\<close>\<close>

fun join :: "str \<Rightarrow> str list \<Rightarrow> str" where
  "join sep [] = []"
| "join sep [x] = x"
| "join sep (x # y # ys) = x @ sep @ join sep (y # ys)"

text \<open>
  \<open>f"{i:+03d}"\<close> and \<open>f"{i:02d}"\<close>: the sign (always, with \<open>+\<close>), then zeros up to the width,
  then the digits.
\<close>

definition format_d :: "bool \<Rightarrow> nat \<Rightarrow> int \<Rightarrow> str" where
  "format_d with_plus width i =
     (let sign = (if i < 0 then ''-'' else if with_plus then ''+'' else '''');
          digits = str_of_nat (nat \<bar>i\<bar>)
      in sign @ replicate (width - length sign - length digits) (CHR ''0'') @ digits)"

definition tz_str :: "int \<Rightarrow> str" where
  "tz_str offset = format_d True 3 (offset div 3600) @ format_d False 2 ((offset mod 3600) div 60)"

text \<open>
  \<open>create_commit\<close>. The clock is an input: \<open>timestamp\<close> is \<open>int(now.timestamp())\<close>. The
  offset of \<open>datetime.now(timezone.utc)\<close> from UTC is zero. \<open>if parent_hash\<close> fails on
  \<open>None\<close> and on the empty string.
\<close>

definition create_commit :: "int \<Rightarrow> store \<Rightarrow> str \<Rightarrow> str option \<Rightarrow> str \<Rightarrow> str \<times> store" where
  "create_commit timestamp st tree_hash parent_hash message =
     (let author_name = ''Peter Norvig'';
          author_email = ''norvig@google.com'';
          offset = 0;
          author = ''author '' @ author_name @ '' <'' @ author_email @ ''> ''
                     @ str_of_int timestamp @ '' '' @ tz_str offset;
          committer = ''committer '' @ author_name @ '' <'' @ author_email @ ''> ''
                     @ str_of_int timestamp @ '' '' @ tz_str offset;
          lines = [''tree '' @ tree_hash]
                  @ (case parent_hash of
                       None \<Rightarrow> []
                     | Some p \<Rightarrow> if p \<noteq> [] then [''parent '' @ p] else [])
                  @ [author, committer, [], message];
          content = encode_utf8 (join [LF] lines)
      in store_object st ''commit'' content)"

text \<open>The loop of \<open>parse_commit\<close> over the header lines; both branches of its test store the value.\<close>

fun parse_headers :: "str list \<Rightarrow> (str \<rightharpoonup> str) \<Rightarrow> error + (str \<rightharpoonup> str)" where
  "parse_headers [] commit_data = Inr commit_data"
| "parse_headers (line # lines) commit_data =
     (case split_first '' '' line of
        None \<Rightarrow> Inl ValueError_unpack
      | Some (key, val) \<Rightarrow>
          if key \<in> set [''author'', ''committer'']
          then parse_headers lines (commit_data(key \<mapsto> val))
          else parse_headers lines (commit_data(key \<mapsto> val)))"

definition parse_commit :: "store \<Rightarrow> str \<Rightarrow> error + (str \<rightharpoonup> str)" where
  "parse_commit st commit_hash =
     (case retrieve_object st commit_hash of
        Inl e \<Rightarrow> Inl e
      | Inr (obj_type, content) \<Rightarrow>
          if obj_type \<noteq> ''commit'' then Inl ValueError_not_a_commit
          else (case decode_utf8 content of
                  Inl e \<Rightarrow> Inl e
                | Inr text \<Rightarrow>
                    (case split_first [LF, LF] text of
                       None \<Rightarrow> Inl ValueError_unpack
                     | Some (headers, message) \<Rightarrow>
                         parse_headers (split_all LF headers) [''message'' \<mapsto> py_strip message])))"

text \<open>The check of \<open>PyGitRef.update_ref\<close>: 40 characters, each a lowercase hexadecimal digit.\<close>

definition is_sha1 :: "str \<Rightarrow> bool" where
  "is_sha1 commit_hash =
     (py_len commit_hash = 40 \<and> list_all (\<lambda>c. c \<in> set ''0123456789abcdef'') commit_hash)"

section \<open>Stage 3: what the commit codec guarantees\<close>

lemma split_first_skip_char:
  "x \<noteq> LF \<Longrightarrow> split_first [LF, LF] (x # s)
     = map_option (\<lambda>(a, b). (x # a, b)) (split_first [LF, LF] s)"
  by (subst split_first.simps) simp

lemma split_first_skip_line:
  "LF \<notin> set l \<Longrightarrow> split_first [LF, LF] (l @ s)
     = map_option (\<lambda>(a, b). (l @ a, b)) (split_first [LF, LF] s)"
proof (induction l)
  case Nil
  then show ?case by (simp add: option.map_ident)
next
  case (Cons x l)
  then have "x \<noteq> LF" by auto
  then show ?case using Cons
    by (simp add: split_first_skip_char option.map_comp comp_def split_def)
qed

lemma split_first_skip_newline:
  "s \<noteq> [] \<Longrightarrow> hd s \<noteq> LF \<Longrightarrow> split_first [LF, LF] (LF # s)
     = map_option (\<lambda>(a, b). (LF # a, b)) (split_first [LF, LF] s)"
  by (subst split_first.simps) (cases s; simp)

lemma split_first_blank:
  "split_first [LF, LF] (LF # LF # m) = Some ([], m)"
  by (subst split_first.simps) simp

lemma join_Cons: "ls \<noteq> [] \<Longrightarrow> join sep (x # ls) = x @ sep @ join sep ls"
  by (cases ls) auto

lemma join_blank: "ls \<noteq> [] \<Longrightarrow> join [LF] (ls @ [[], m]) = join [LF] ls @ LF # LF # m"
proof (induction ls)
  case Nil
  then show ?case by simp
next
  case (Cons x ls)
  show ?case
  proof (cases ls)
    case Nil
    then show ?thesis by simp
  next
    case (Cons y ys)
    then show ?thesis using Cons.IH by (simp add: join_Cons)
  qed
qed

lemma split_first_headers:
  "ls \<noteq> [] \<Longrightarrow> \<forall>l \<in> set ls. LF \<notin> set l \<and> l \<noteq> [] \<Longrightarrow>
   split_first [LF, LF] (join [LF] ls @ LF # LF # m) = Some (join [LF] ls, m)"
proof (induction ls)
  case Nil
  then show ?case by simp
next
  case (Cons x ls)
  show ?case
  proof (cases ls)
    case Nil
    then show ?thesis using Cons.prems by (simp add: split_first_skip_line split_first_blank)
  next
    case c: (Cons y ys)
    then have y: "y \<noteq> []" "LF \<notin> set y" using Cons.prems by auto
    then have "hd (join [LF] ls @ LF # LF # m) \<noteq> LF"
      unfolding c by (cases y; cases ys) auto
    moreover have "join [LF] ls @ LF # LF # m \<noteq> []" by simp
    ultimately have "split_first [LF, LF] (LF # join [LF] ls @ LF # LF # m)
        = map_option (\<lambda>(a, b). (LF # a, b)) (split_first [LF, LF] (join [LF] ls @ LF # LF # m))"
      by (rule split_first_skip_newline [rotated])
    moreover have "split_first [LF, LF] (join [LF] ls @ LF # LF # m) = Some (join [LF] ls, m)"
      using Cons.IH Cons.prems c by simp
    moreover have "join [LF] (x # ls) = x @ LF # join [LF] ls" using c by simp
    ultimately show ?thesis using Cons.prems
      by (simp add: split_first_skip_line)
  qed
qed

lemma split_all_line:
  "c \<notin> set l \<Longrightarrow> split_all c (l @ c # s) = l # split_all c s"
  by (induction l) (auto split: list.splits simp: split_all_nonempty)

lemma split_all_join:
  "ls \<noteq> [] \<Longrightarrow> \<forall>l \<in> set ls. c \<notin> set l \<Longrightarrow> split_all c (join [c] ls) = ls"
proof (induction ls)
  case Nil
  then show ?case by simp
next
  case (Cons x ls)
  show ?case
  proof (cases ls)
    case Nil
    then show ?thesis using Cons.prems by (simp add: split_all_none)
  next
    case c: (Cons y ys)
    then have "join [c] (x # ls) = x @ c # join [c] ls" by simp
    then show ?thesis using Cons c by (simp add: split_all_line)
  qed
qed

lemma tz_str_0: "tz_str 0 = ''+0000''"
  by (simp add: tz_str_def format_d_def str_of_nat.simps digit_char_def)

lemma str_of_int_plain: "c \<in> set (str_of_int i) \<Longrightarrow> plain c"
  using str_of_nat_digits by (auto simp: str_of_int_def plain_def split: if_splits)

text \<open>The header lines of a commit, and the text \<open>create_commit\<close> stores.\<close>

definition header_line :: "str \<Rightarrow> str \<Rightarrow> str" where
  "header_line key v = key @ '' '' @ v"

definition author_value :: "int \<Rightarrow> str" where
  "author_value timestamp = ''Peter Norvig <norvig@google.com> '' @ str_of_int timestamp @ '' +0000''"

definition header_lines :: "int \<Rightarrow> str \<Rightarrow> str option \<Rightarrow> str list" where
  "header_lines timestamp tree_hash parent_hash =
     [header_line ''tree'' tree_hash]
     @ (case parent_hash of None \<Rightarrow> []
        | Some p \<Rightarrow> if p \<noteq> [] then [header_line ''parent'' p] else [])
     @ [header_line ''author'' (author_value timestamp),
        header_line ''committer'' (author_value timestamp)]"

definition commit_text :: "int \<Rightarrow> str \<Rightarrow> str option \<Rightarrow> str \<Rightarrow> str" where
  "commit_text timestamp tree_hash parent_hash message =
     join [LF] (header_lines timestamp tree_hash parent_hash) @ LF # LF # message"

lemma create_commit_eq:
  "create_commit timestamp st tree_hash parent_hash message
     = store_object st ''commit'' (commit_text timestamp tree_hash parent_hash message)"
proof -
  have "create_commit timestamp st tree_hash parent_hash message
     = store_object st ''commit''
         (encode_utf8 (join [LF] (header_lines timestamp tree_hash parent_hash @ [[], message])))"
    unfolding create_commit_def Let_def tz_str_0 header_lines_def header_line_def author_value_def
    by (simp split: option.splits)
  moreover have "header_lines timestamp tree_hash parent_hash \<noteq> []"
    by (simp add: header_lines_def)
  then have "join [LF] (header_lines timestamp tree_hash parent_hash @ [[], message])
      = commit_text timestamp tree_hash parent_hash message"
    unfolding commit_text_def by (rule join_blank)
  ultimately show ?thesis
    by (simp add: encode_utf8_def)
qed

lemma utf8_valid_literal_plain: "\<forall>c \<in> set s. plain c \<or> c = CHR '' '' \<Longrightarrow> utf8_valid s"
  by (rule utf8_valid_ascii) (auto simp: plain_def)

lemma utf8_valid_app: "utf8_valid a \<Longrightarrow> utf8_valid b \<Longrightarrow> utf8_valid (a @ b)"
  using utf8_valid_append by blast

lemma author_value_facts:
  "utf8_valid (author_value timestamp)" "LF \<notin> set (author_value timestamp)"
proof -
  have p: "\<forall>c \<in> set (author_value timestamp). plain c \<or> c = CHR '' ''"
    using str_of_int_plain [of _ timestamp] by (auto simp: author_value_def plain_def)
  then show "utf8_valid (author_value timestamp)" by (rule utf8_valid_literal_plain)
  show "LF \<notin> set (author_value timestamp)"
    using p by (auto simp: LF_def plain_def)
qed

lemma header_line_facts:
  assumes "key \<in> {''tree'', ''parent'', ''author'', ''committer''}"
    and "LF \<notin> set v" and "utf8_valid v"
  shows "LF \<notin> set (header_line key v) \<and> header_line key v \<noteq> [] \<and> utf8_valid (header_line key v)"
proof -
  have k: "LF \<notin> set key \<and> key \<noteq> [] \<and> utf8_valid (key @ '' '')"
    using assms(1) by (auto simp: LF_def byte_in_def)
  then have "utf8_valid ((key @ '' '') @ v)" using assms(3) utf8_valid_app by blast
  then show ?thesis using k assms(2) by (simp add: header_line_def LF_def)
qed

lemma parse_header_line:
  "CHR '' '' \<notin> set key \<Longrightarrow>
   parse_headers (header_line key v # lines) d = parse_headers lines (d(key \<mapsto> v))"
  using split_first_single [of "CHR '' ''" key v] by (simp add: header_line_def)

lemma hex_char_plain: "c \<in> set ''0123456789abcdef'' \<Longrightarrow> plain c"
  unfolding plain_def by (simp, elim disjE) simp_all

lemma utf8_valid_join:
  "\<forall>l \<in> set ls. utf8_valid l \<Longrightarrow> utf8_valid (join [LF] ls)"
proof (induction ls)
  case Nil
  then show ?case by simp
next
  case (Cons x ls)
  show ?case
  proof (cases ls)
    case Nil
    then show ?thesis using Cons.prems by simp
  next
    case c: (Cons y ys)
    have "utf8_valid [LF]" by (simp add: LF_def byte_in_def)
    moreover have "utf8_valid (join [LF] ls)" using Cons by simp
    ultimately have "utf8_valid ([LF] @ join [LF] ls)" by (rule utf8_valid_app)
    moreover have "utf8_valid x" using Cons.prems by simp
    ultimately have "utf8_valid (x @ [LF] @ join [LF] ls)" by (rule utf8_valid_app [rotated])
    then show ?thesis using c by simp
  qed
qed

lemma is_sha1_text:
  assumes "is_sha1 h"
  shows "LF \<notin> set h" "utf8_valid h" "h \<noteq> []"
proof -
  have p: "\<forall>c \<in> set h. plain c"
    using assms hex_char_plain unfolding is_sha1_def list_all_iff by blast
  then show "LF \<notin> set h" by (auto simp: LF_def plain_def)
  show "utf8_valid h" by (rule utf8_valid_literal_plain) (use p in blast)
  show "h \<noteq> []" using assms by (auto simp: is_sha1_def py_len_def)
qed

lemma parse_created_commit:
  fixes timestamp st tree_hash parent_hash message
  defines "h \<equiv> fst (create_commit timestamp st tree_hash parent_hash message)"
    and "st' \<equiv> snd (create_commit timestamp st tree_hash parent_hash message)"
  assumes T: "LF \<notin> set tree_hash" "utf8_valid tree_hash"
    and P: "parent_hash = None \<or> (\<exists>p. parent_hash = Some p \<and> LF \<notin> set p \<and> utf8_valid p)"
    and M: "utf8_valid message"
    and free: "objects st (object_path h) = None
         \<or> retrieve_object st h
              = Inr (''commit'', encode_utf8 (commit_text timestamp tree_hash parent_hash message))"
  shows "\<exists>d. parse_commit st' h = Inr d
            \<and> d ''tree'' = Some tree_hash
            \<and> d ''parent'' = (case parent_hash of None \<Rightarrow> None
                                | Some p \<Rightarrow> if p = [] then None else Some p)
            \<and> d ''message'' = Some (py_strip message)"
proof -
  let ?text = "commit_text timestamp tree_hash parent_hash message"
  let ?hl = "header_lines timestamp tree_hash parent_hash"
  let ?t = "header_line ''tree'' tree_hash"
  let ?a = "header_line ''author'' (author_value timestamp)"
  let ?c = "header_line ''committer'' (author_value timestamp)"
  let ?d0 = "[''message'' \<mapsto> py_strip message]"
  have h: "h = hash_content ''commit'' ?text"
    by (simp add: h_def create_commit_eq store_object_fst)
  have st': "st' = snd (store_object st ''commit'' ?text)"
    by (simp add: st'_def create_commit_eq)
  have k: "utf8_valid ''commit''" "CHR '' '' \<notin> set ''commit''" "NUL \<notin> set ''commit''"
    by (simp_all add: byte_in_def NUL_def)
  have r: "retrieve_object st' h = Inr (''commit'', ?text)"
  proof (cases "objects st (object_path h)")
    case None
    then show ?thesis
      using retrieve_after_store [OF k, of st ?text] by (simp add: h st' store_object_fst)
  next
    case (Some z)
    then have "store_object st ''commit'' ?text = (h, st)"
      using store_object_present [of st "''commit''" ?text] by (simp add: h)
    then show ?thesis using free Some by (simp add: st' encode_utf8_def)
  qed
  have lt: "LF \<notin> set ?t \<and> ?t \<noteq> [] \<and> utf8_valid ?t"
    using T by (intro header_line_facts) simp_all
  have la: "LF \<notin> set ?a \<and> ?a \<noteq> [] \<and> utf8_valid ?a"
    using author_value_facts by (intro header_line_facts) simp_all
  have lc: "LF \<notin> set ?c \<and> ?c \<noteq> [] \<and> utf8_valid ?c"
    using author_value_facts by (intro header_line_facts) simp_all
  consider (root) "?hl = [?t, ?a, ?c]" "parent_hash = None \<or> parent_hash = Some []"
    | (child) p where "?hl = [?t, header_line ''parent'' p, ?a, ?c]" "parent_hash = Some p" "p \<noteq> []"
        "LF \<notin> set p" "utf8_valid p"
  proof (cases parent_hash)
    case None
    then show ?thesis using that(1) by (simp add: header_lines_def)
  next
    case (Some p)
    then show ?thesis using that P by (cases "p = []") (simp_all add: header_lines_def)
  qed
  then show ?thesis
  proof cases
    case root
    have lines: "\<forall>l \<in> set ?hl. LF \<notin> set l \<and> l \<noteq> [] \<and> utf8_valid l"
      unfolding root(1) using lt la lc by simp
    have ne: "?hl \<noteq> []" unfolding root(1) by simp
    have v: "utf8_valid ?text"
    proof -
      have "utf8_valid (join [LF] ?hl)" using lines by (intro utf8_valid_join) blast
      moreover have "utf8_valid (LF # LF # message)" using M by (simp add: LF_def byte_in_def)
      ultimately show ?thesis unfolding commit_text_def by (rule utf8_valid_app)
    qed
    have sp: "split_first [LF, LF] ?text = Some (join [LF] ?hl, message)"
      unfolding commit_text_def using ne lines by (intro split_first_headers) blast+
    have sa: "split_all LF (join [LF] ?hl) = ?hl"
      using ne lines by (intro split_all_join) blast+
    have "parse_commit st' h = parse_headers ?hl ?d0"
      using r v sp sa by (simp add: parse_commit_def decode_utf8_def)
    also have "\<dots> = Inr (?d0(''tree'' \<mapsto> tree_hash, ''author'' \<mapsto> author_value timestamp,
        ''committer'' \<mapsto> author_value timestamp))"
      unfolding root(1) by (simp add: parse_header_line del: parse_headers.simps(2))
    finally show ?thesis using root(2) by auto
  next
    case child
    have lp: "LF \<notin> set (header_line ''parent'' p) \<and> header_line ''parent'' p \<noteq> []
        \<and> utf8_valid (header_line ''parent'' p)"
      using child by (intro header_line_facts) simp_all
    have lines: "\<forall>l \<in> set ?hl. LF \<notin> set l \<and> l \<noteq> [] \<and> utf8_valid l"
      unfolding child(1) using lt la lc lp by simp
    have ne: "?hl \<noteq> []" unfolding child(1) by simp
    have v: "utf8_valid ?text"
    proof -
      have "utf8_valid (join [LF] ?hl)" using lines by (intro utf8_valid_join) blast
      moreover have "utf8_valid (LF # LF # message)" using M by (simp add: LF_def byte_in_def)
      ultimately show ?thesis unfolding commit_text_def by (rule utf8_valid_app)
    qed
    have sp: "split_first [LF, LF] ?text = Some (join [LF] ?hl, message)"
      unfolding commit_text_def using ne lines by (intro split_first_headers) blast+
    have sa: "split_all LF (join [LF] ?hl) = ?hl"
      using ne lines by (intro split_all_join) blast+
    have "parse_commit st' h = parse_headers ?hl ?d0"
      using r v sp sa by (simp add: parse_commit_def decode_utf8_def)
    also have "\<dots> = Inr (?d0(''tree'' \<mapsto> tree_hash, ''parent'' \<mapsto> p,
        ''author'' \<mapsto> author_value timestamp, ''committer'' \<mapsto> author_value timestamp))"
      unfolding child(1) by (simp add: parse_header_line del: parse_headers.simps(2))
    finally show ?thesis using child(2,3) by auto
  qed
qed

text \<open>
  Claim C8, amended. For a tree address, an optional parent address and a message, in a
  store where the address of the new commit is vacant or already holds this commit,
  \<open>parse_commit\<close> of what \<open>create_commit\<close> stored returns a record whose \<open>tree\<close> is the
  tree address, whose \<open>parent\<close> is the parent address when one was given and is absent
  otherwise, and whose \<open>message\<close> is the message with the whitespace at both of its ends
  trimmed.
\<close>

theorem commit_round_trip:
  assumes "is_sha1 tree_hash"
    and "parent_hash = None \<or> (\<exists>p. parent_hash = Some p \<and> is_sha1 p)"
    and "utf8_valid message"
    and "objects st (object_path (fst (create_commit timestamp st tree_hash parent_hash message))) = None
         \<or> retrieve_object st (fst (create_commit timestamp st tree_hash parent_hash message))
              = Inr (''commit'', encode_utf8 (commit_text timestamp tree_hash parent_hash message))"
  shows "\<exists>d. parse_commit (snd (create_commit timestamp st tree_hash parent_hash message))
                (fst (create_commit timestamp st tree_hash parent_hash message)) = Inr d
            \<and> d ''tree'' = Some tree_hash
            \<and> d ''parent'' = parent_hash
            \<and> d ''message'' = Some (py_strip message)"
proof -
  have P: "parent_hash = None \<or> (\<exists>p. parent_hash = Some p \<and> LF \<notin> set p \<and> utf8_valid p)"
    using assms(2) is_sha1_text by blast
  have "(case parent_hash of None \<Rightarrow> None | Some p \<Rightarrow> if p = [] then None else Some p) = parent_hash"
    using assms(2) is_sha1_text(3) by (auto split: option.splits)
  then show ?thesis
    using parse_created_commit [OF is_sha1_text(1,2) [OF assms(1)] P assms(3,4)] by simp
qed

text \<open>Two addresses to name a tree and a parent commit.\<close>

definition address_0 :: str where
  "address_0 = ''0000000000000000000000000000000000000000''"

definition address_1 :: str where
  "address_1 = ''1111111111111111111111111111111111111111''"

lemma is_sha1_address: "is_sha1 address_0" "is_sha1 address_1"
  by (simp_all add: is_sha1_def address_0_def address_1_def py_len_def cont_byte_def)

lemma strip_examples:
  "py_strip '' x'' = ''x''" "py_rstrip '' x'' = '' x''"
  by (simp_all add: py_strip_def py_lstrip_def py_rstrip_def strip_front.simps ws1_def ws2_def ws3_def)

text \<open>
  The hypotheses of C8 for a commit with a parent, created in the empty store.
\<close>

theorem commit_round_trip_witness:
  "is_sha1 address_0 \<and> is_sha1 address_1 \<and> utf8_valid ''fix the parser''
   \<and> objects empty_store
        (object_path (fst (create_commit 1700000000 empty_store address_0 (Some address_1) ''fix the parser''))) = None
   \<and> (\<exists>d. parse_commit (snd (create_commit 1700000000 empty_store address_0 (Some address_1) ''fix the parser''))
             (fst (create_commit 1700000000 empty_store address_0 (Some address_1) ''fix the parser'')) = Inr d
          \<and> d ''tree'' = Some address_0 \<and> d ''parent'' = Some address_1
          \<and> d ''message'' = Some (py_strip ''fix the parser''))"
proof -
  have e: "objects empty_store p = None" for p by (simp add: empty_store_def)
  have m: "utf8_valid ''fix the parser''" by (simp add: byte_in_def)
  show ?thesis
    using commit_round_trip [of address_0 "Some address_1" "''fix the parser''" empty_store 1700000000]
      is_sha1_address e m
    by simp
qed

text \<open>
  Claim C8 as stated fails on a message that starts with whitespace: \<open>message.strip()\<close>
  trims both ends, so the message \<open>" x"\<close> comes back as \<open>"x"\<close>, while trimming the
  trailing whitespace alone leaves it as it is.
\<close>

theorem commit_message_counterexample:
  "is_sha1 address_0 \<and> utf8_valid '' x''
   \<and> (\<exists>d. parse_commit (snd (create_commit 1700000000 empty_store address_0 None '' x''))
             (fst (create_commit 1700000000 empty_store address_0 None '' x'')) = Inr d
          \<and> d ''message'' = Some ''x'')
   \<and> py_rstrip '' x'' = '' x'' \<and> ''x'' \<noteq> '' x''"
proof -
  have e: "objects empty_store p = None" for p by (simp add: empty_store_def)
  have m: "utf8_valid '' x''" by (simp add: byte_in_def)
  have "\<exists>d. parse_commit (snd (create_commit 1700000000 empty_store address_0 None '' x''))
             (fst (create_commit 1700000000 empty_store address_0 None '' x'')) = Inr d
          \<and> d ''message'' = Some (py_strip '' x'')"
    using parse_created_commit [OF is_sha1_text(1,2) [OF is_sha1_address(1)] _ m,
        of None empty_store 1700000000] e
    by auto
  then show ?thesis
    using is_sha1_address(1) m strip_examples by simp
qed

section \<open>Stage 4: references\<close>

text \<open>
  The directory \<open>git_dir\<close>, as far as refs live in it: a map from a path, the list of its
  segments below \<open>git_dir\<close>, to a regular file with its bytes or to a directory. \<open>pathlib\<close>
  drops empty segments and \<open>.\<close> segments when it joins; a name that starts with a slash
  replaces \<open>git_dir\<close>, and its path starts with the segment \<open>/\<close>. Links and \<open>..\<close>
  segments are not followed: a path is its spelling.
\<close>

datatype fs_entry = Regular bytes | Directory

type_synonym ref_files = "str list \<rightharpoonup> fs_entry"

definition path_parts :: "str \<Rightarrow> str list" where
  "path_parts name =
     (if startswith name ''/'' then [''/''] else [])
     @ filter (\<lambda>s. s \<noteq> [] \<and> s \<noteq> ''.'') (split_all (CHR ''/'') name)"

text \<open>\<open>self.git_dir / ref_name\<close> and \<open>self.heads_dir / ref_name\<close>\<close>

definition git_path :: "str \<Rightarrow> str list" where
  "git_path ref_name = path_parts ref_name"

definition heads_path :: "str \<Rightarrow> str list" where
  "heads_path ref_name =
     (if startswith ref_name ''/'' then path_parts ref_name
      else [''refs'', ''heads''] @ path_parts ref_name)"



definition write_text :: "ref_files \<Rightarrow> str list \<Rightarrow> str \<Rightarrow> error + ref_files" where
  "write_text files p s =
     (case files p of
        Some Directory \<Rightarrow> Inl IsADirectoryError
      | _ \<Rightarrow> Inr (files(p \<mapsto> Regular (encode_utf8 s))))"

text \<open>
  \<open>mkdir(parents=True, exist_ok=True)\<close> on the path \<open>made @ todo\<close>, of which \<open>made\<close> is
  there already: every missing directory on the way is made, a directory that exists is
  left alone, and a regular file is in the way.
\<close>

fun mkdir_parents :: "ref_files \<Rightarrow> str list \<Rightarrow> str list \<Rightarrow> error + ref_files" where
  "mkdir_parents files made [] = Inr files"
| "mkdir_parents files made (seg # todo) =
     (case files (made @ [seg]) of
        None \<Rightarrow> mkdir_parents (files(made @ [seg] \<mapsto> Directory)) (made @ [seg]) todo
      | Some Directory \<Rightarrow> mkdir_parents files (made @ [seg]) todo
      | Some (Regular b) \<Rightarrow> Inl (if todo = [] then FileExistsError else NotADirectoryError))"

text \<open>The files of \<open>git_dir\<close> and what the program has printed.\<close>

record repo =
  files :: ref_files
  stdout :: "str list"

text \<open>
  \<open>GitRefs.update_ref\<close>. An exception leaves the directories made until then. The parent
  of \<open>git_dir\<close> itself is taken to exist.
\<close>

definition update_ref :: "repo \<Rightarrow> str \<Rightarrow> str \<Rightarrow> bool \<Rightarrow> (error + unit) \<times> repo" where
  "update_ref r ref_name commit_hash symbolic =
     (let ref_path = git_path ref_name in
      case mkdir_parents (files r) [] (butlast ref_path) of
        Inl e \<Rightarrow> (Inl e, r)
      | Inr files1 \<Rightarrow>
          (let content = (if symbolic then ''ref: '' @ commit_hash else commit_hash) in
           case write_text files1 ref_path (py_strip content @ [LF]) of
             Inl e \<Rightarrow> (Inl e, r\<lparr>files := files1\<rparr>)
           | Inr files2 \<Rightarrow>
               (Inr (), \<lparr>files = files2,
                         stdout = stdout r @ [''Updated ref '' @ [CHR 0x27] @ ref_name @ [CHR 0x27]
                                   @ '' to point to '' @ [CHR 0x27] @ py_strip content @ [CHR 0x27]]\<rparr>)))"



text \<open>\<open>PyGitRef.update_ref\<close>, the command: the check, then \<open>GitRefs.update_ref\<close>.\<close>

definition cli_update_ref :: "repo \<Rightarrow> str \<Rightarrow> str \<Rightarrow> (error + unit) \<times> repo" where
  "cli_update_ref r ref_name commit_hash =
     (if py_len commit_hash \<noteq> 40 \<or> \<not> list_all (\<lambda>c. c \<in> set ''0123456789abcdef'') commit_hash
      then (Inr (), r\<lparr>stdout := stdout r @ [''Error: '' @ [CHR 0x27] @ commit_hash @ [CHR 0x27]
                                    @ '' is not a valid SHA-1 hash.'']\<rparr>)
      else update_ref r ref_name commit_hash False)"

section \<open>Stage 4: what the references guarantee\<close>

lemma is_sha1_strip: "is_sha1 h \<Longrightarrow> py_strip h = h"
proof -
  assume a: "is_sha1 h"
  then have p: "\<forall>c \<in> set h. plain c"
    using hex_char_plain unfolding is_sha1_def list_all_iff by blast
  have "h \<noteq> []" using a by (rule is_sha1_text(3))
  then show ?thesis using p by (intro py_strip_plain) auto
qed


text \<open>
  Claim C10. The command \<open>update_ref\<close> checks the value for exactly 40 characters, each a
  lowercase hexadecimal digit, before anything is written: on any other value it prints an
  error and returns with the files as they were, and only a value that passes reaches
  \<open>GitRefs.update_ref\<close>.
\<close>

theorem update_ref_validation:
  "(\<not> is_sha1 commit_hash
      \<longrightarrow> cli_update_ref r ref_name commit_hash
          = (Inr (), r\<lparr>stdout := stdout r @ [''Error: '' @ [CHR 0x27] @ commit_hash @ [CHR 0x27]
                                      @ '' is not a valid SHA-1 hash.'']\<rparr>))
   \<and> (\<not> is_sha1 commit_hash \<longrightarrow> files (snd (cli_update_ref r ref_name commit_hash)) = files r)
   \<and> (is_sha1 commit_hash
      \<longrightarrow> cli_update_ref r ref_name commit_hash = update_ref r ref_name commit_hash False)"
  by (simp add: cli_update_ref_def is_sha1_def)












text \<open>
  A repository with nothing but its directory; then \<open>HEAD\<close> made symbolic to the branch
  \<open>main\<close>, as \<open>init\<close> does; then the branch set to a commit.
\<close>

definition fresh_repo :: repo where
  "fresh_repo = \<lparr>files = [[] \<mapsto> Directory], stdout = []\<rparr>"



text \<open>A branch called \<open>HEAD\<close> in a repository that has no \<open>HEAD\<close> file.\<close>

definition repo_branch_HEAD :: repo where
  "repo_branch_HEAD = snd (cli_update_ref fresh_repo ''refs/heads/HEAD'' address_0)"


lemma paths:
  "git_path ''refs/heads/main'' = [''refs'', ''heads'', ''main'']"
  "git_path ''refs/heads/HEAD'' = [''refs'', ''heads'', ''HEAD'']"
  "heads_path ''HEAD'' = [''refs'', ''heads'', ''HEAD'']"
  "git_path ''v1'' = [''v1'']" "heads_path ''v1'' = [''refs'', ''heads'', ''v1'']"
  by (simp_all add: git_path_def heads_path_def path_parts_def startswith_def)



lemma files_repo_branch_HEAD:
  "files repo_branch_HEAD = [[] \<mapsto> Directory,
     [''refs''] \<mapsto> Directory, [''refs'', ''heads''] \<mapsto> Directory,
     [''refs'', ''heads'', ''HEAD''] \<mapsto> Regular (encode_utf8 (address_0 @ [LF]))]"
proof -
  have "cli_update_ref fresh_repo ''refs/heads/HEAD'' address_0
      = update_ref fresh_repo ''refs/heads/HEAD'' address_0 False"
    using is_sha1_address(1) by (simp add: cli_update_ref_def is_sha1_def)
  then show ?thesis
    using is_sha1_strip [OF is_sha1_address(1)]
    by (simp add: repo_branch_HEAD_def update_ref_def paths write_text_def fresh_repo_def Let_def)
qed



text \<open>Two values that are no addresses: 38 characters, and 40 with a \<open>g\<close> among them.\<close>

definition short_hash :: str where
  "short_hash = ''00000000000000000000000000000000000000''"

definition not_hex :: str where
  "not_hex = ''000000000000000000000000000000000000000g''"

text \<open>
  The cases of C10: a value of 38 characters and one with a \<open>g\<close> are rejected and
  nothing is written; an address is passed on and stored.
\<close>

theorem update_ref_validation_witness:
  "\<not> is_sha1 short_hash \<and> \<not> is_sha1 not_hex \<and> is_sha1 address_0
   \<and> files (snd (cli_update_ref fresh_repo ''refs/heads/main'' short_hash)) = files fresh_repo
   \<and> fst (cli_update_ref fresh_repo ''refs/heads/main'' short_hash) = Inr ()
   \<and> stdout (snd (cli_update_ref fresh_repo ''refs/heads/main'' short_hash))
       = [''Error: '' @ [CHR 0x27] @ short_hash @ [CHR 0x27] @ '' is not a valid SHA-1 hash.'']
   \<and> files (snd (cli_update_ref fresh_repo ''refs/heads/main'' not_hex)) = files fresh_repo
   \<and> cli_update_ref fresh_repo ''refs/heads/HEAD'' address_0
       = update_ref fresh_repo ''refs/heads/HEAD'' address_0 False
   \<and> files (snd (cli_update_ref fresh_repo ''refs/heads/HEAD'' address_0)) [''refs'', ''heads'', ''HEAD'']
       = Some (Regular (encode_utf8 (address_0 @ [LF])))"
proof -
  have 1: "\<not> is_sha1 short_hash" by (simp add: is_sha1_def short_hash_def py_len_def cont_byte_def)
  have 2: "\<not> is_sha1 not_hex" by (simp add: is_sha1_def not_hex_def)
  have 3: "files (snd (cli_update_ref fresh_repo ''refs/heads/HEAD'' address_0)) [''refs'', ''heads'', ''HEAD'']
       = Some (Regular (encode_utf8 (address_0 @ [LF])))"
    using files_repo_branch_HEAD by (simp add: repo_branch_HEAD_def)
  show ?thesis
    using 1 2 3 is_sha1_address(1)
      update_ref_validation [of short_hash fresh_repo "''refs/heads/main''"]
      update_ref_validation [of not_hex fresh_repo "''refs/heads/main''"]
      update_ref_validation [of address_0 fresh_repo "''refs/heads/HEAD''"]
    by (simp add: fresh_repo_def)
qed

end
